theory Spec2Isabelle
  imports Main "HOL-Library.Word"
begin

unbundle bit_operations_syntax

section \<open>Common data\<close>

text \<open>
  Go's \<^verbatim>\<open>time.Time\<close> is modelled by the instant it denotes, counted in nanoseconds from
  the Unix epoch, and \<^verbatim>\<open>time.Duration\<close> by a number of nanoseconds. Keys are byte
  strings.
\<close>

type_synonym time = int
type_synonym duration = int
type_synonym key = "8 word list"

definition Nanosecond :: duration where "Nanosecond = 1"
definition Millisecond :: duration where "Millisecond = 1000000"
definition Second :: duration where "Second = 1000000000"
definition Minute :: duration where "Minute = 60 * Second"
definition Hour :: duration where "Hour = 60 * Minute"

section \<open>Balance-range scheduler: the job list (package schedulers)\<close>

datatype JobStatus = pending | running | finished | cancelled

datatype Rule = LeaderScatter | PeerScatter | LearnerScatter | UnknownRule

record balanceRangeSchedulerJob =
  JobID :: "64 word"
  Rule :: Rule
  Engine :: string
  Timeout :: duration
  Ranges :: "(key \<times> key) list"
  Alias :: string
  Start :: "time option"
  Finish :: "time option"
  Create :: time
  Status :: JobStatus

text \<open>
  \<^verbatim>\<open>conf.jobs\<close> is a slice of pointers. The objects live in a store (a list, the address
  of an object is its index) and the slice is a list of addresses, so that a write through
  one pointer is seen through every alias of it.
\<close>

type_synonym addr = nat

record balanceRangeSchedulerConfig =
  heap :: "balanceRangeSchedulerJob list"
  jobs :: "addr list"

datatype cfg_error =
    ErrorsNew string
  | ErrInvalidArgument "64 word"
  | ErrScheduleConfigNotExist "64 word"
  | ErrSave string
  | PanicIndexOutOfRange

definition reserveDuration :: duration where
  "reserveDuration = 7 * 24 * Hour"

definition defaultJobTimeout :: duration where
  "defaultJobTimeout = 30 * Minute"

definition isComplete :: "balanceRangeSchedulerJob \<Rightarrow> bool" where
  "isComplete job \<longleftrightarrow> Status job = finished \<or> Status job = cancelled"

definition expired :: "time \<Rightarrow> balanceRangeSchedulerJob \<Rightarrow> duration \<Rightarrow> bool" where
  "expired now job dur =
     (case Finish job of None \<Rightarrow> False | Some f \<Rightarrow> now - f > dur)"

text \<open>The jobs of the list, read through the pointers.\<close>

definition job_values :: "balanceRangeSchedulerConfig \<Rightarrow> balanceRangeSchedulerJob list" where
  "job_values conf = map (\<lambda>a. heap conf ! a) (jobs conf)"

text \<open>
  \<^verbatim>\<open>cloneLocked\<close> allocates one new object per job, copying every field, and returns the
  slice of the new pointers (together with the store that now holds the copies).
\<close>

definition cloneLocked ::
  "balanceRangeSchedulerConfig \<Rightarrow> balanceRangeSchedulerJob list \<times> addr list" where
  "cloneLocked conf =
     (heap conf @ map (\<lambda>a. heap conf ! a) (jobs conf),
      [length (heap conf) ..< length (heap conf) + length (jobs conf)])"

text \<open>
  \<^verbatim>\<open>conf.save()\<close> belongs to the scheduler framework and writes the marshalled job list to
  the storage; the model takes it as a parameter \<open>save\<close> that sees the jobs to be written
  and may return an error.
\<close>

definition persistLocked ::
  "(balanceRangeSchedulerJob list \<Rightarrow> string option) \<Rightarrow>
   (balanceRangeSchedulerConfig \<Rightarrow> balanceRangeSchedulerConfig) \<Rightarrow>
   balanceRangeSchedulerConfig \<Rightarrow> balanceRangeSchedulerConfig \<times> cfg_error option" where
  "persistLocked save updateFn conf =
     (let (h, originJobs) = cloneLocked conf;
          conf1 = updateFn (conf\<lparr>heap := h\<rparr>)
      in case save (job_values conf1) of
           Some err \<Rightarrow> (conf1\<lparr>jobs := originJobs\<rparr>, Some (ErrSave err))
         | None \<Rightarrow> (conf1, None))"

text \<open>The alias check of \<^verbatim>\<open>addJob\<close>: the loop over \<^verbatim>\<open>conf.jobs\<close>.\<close>

fun alias_exists :: "balanceRangeSchedulerJob list \<Rightarrow> string \<Rightarrow> bool" where
  "alias_exists [] alias = False"
| "alias_exists (c # cs) alias =
     (if isComplete c then alias_exists cs alias
      else if alias = Alias c then True
      else alias_exists cs alias)"

text \<open>
  \<^verbatim>\<open>addJob\<close> receives a pointer \<open>j\<close> to the new job, writes its status and id through
  the pointer and appends the pointer to the list.
\<close>

definition addJob ::
  "(balanceRangeSchedulerJob list \<Rightarrow> string option) \<Rightarrow> addr \<Rightarrow>
   balanceRangeSchedulerConfig \<Rightarrow> balanceRangeSchedulerConfig \<times> cfg_error option" where
  "addJob save j conf =
     (if alias_exists (job_values conf) (Alias (heap conf ! j))
      then (conf, Some (ErrorsNew ''job already exists''))
      else
        let h1 = (heap conf)[j := (heap conf ! j)\<lparr>Status := pending\<rparr>];
            newID = (if length (jobs conf) = 0 then 1
                     else JobID (h1 ! (jobs conf ! (length (jobs conf) - 1))) + 1);
            h2 = h1[j := (h1 ! j)\<lparr>JobID := newID\<rparr>]
        in persistLocked save (\<lambda>c. c\<lparr>jobs := jobs c @ [j]\<rparr>) (conf\<lparr>heap := h2\<rparr>))"

text \<open>\<^verbatim>\<open>deleteJob\<close>: the loop looks for the first job with the given id.\<close>

fun deleteJob_loop ::
  "(balanceRangeSchedulerJob list \<Rightarrow> string option) \<Rightarrow> time \<Rightarrow> 64 word \<Rightarrow>
   addr list \<Rightarrow> balanceRangeSchedulerConfig \<Rightarrow>
   balanceRangeSchedulerConfig \<times> cfg_error option" where
  "deleteJob_loop save now jobID [] conf = (conf, Some (ErrScheduleConfigNotExist jobID))"
| "deleteJob_loop save now jobID (a # as) conf =
     (if JobID (heap conf ! a) = jobID then
        (if isComplete (heap conf ! a) then (conf, Some (ErrInvalidArgument jobID))
         else persistLocked save
           (\<lambda>c. let job = heap c ! a;
                     job1 = job\<lparr>Status := cancelled\<rparr>;
                     job2 = (if Start job1 = None then job1\<lparr>Start := Some now\<rparr> else job1);
                     job3 = job2\<lparr>Finish := Some now\<rparr>
                 in c\<lparr>heap := (heap c)[a := job3]\<rparr>) conf)
      else deleteJob_loop save now jobID as conf)"

definition deleteJob ::
  "(balanceRangeSchedulerJob list \<Rightarrow> string option) \<Rightarrow> time \<Rightarrow> 64 word \<Rightarrow>
   balanceRangeSchedulerConfig \<Rightarrow> balanceRangeSchedulerConfig \<times> cfg_error option" where
  "deleteJob save now jobID conf = deleteJob_loop save now jobID (jobs conf) conf"

text \<open>
  \<^verbatim>\<open>gc\<close>: the loop runs over the leading jobs that are complete and expired and records
  the index of the last of them.
\<close>

fun gc_loop ::
  "time \<Rightarrow> balanceRangeSchedulerJob list \<Rightarrow> nat \<Rightarrow> bool \<times> nat \<Rightarrow> bool \<times> nat" where
  "gc_loop now [] idx acc = acc"
| "gc_loop now (job # rest) idx acc =
     (if isComplete job \<and> expired now job reserveDuration
      then gc_loop now rest (Suc idx) (True, idx)
      else acc)"

definition gc ::
  "(balanceRangeSchedulerJob list \<Rightarrow> string option) \<Rightarrow> time \<Rightarrow>
   balanceRangeSchedulerConfig \<Rightarrow> balanceRangeSchedulerConfig \<times> cfg_error option" where
  "gc save now conf =
     (let (needGC, gcIdx) = gc_loop now (job_values conf) 0 (False, 0)
      in if \<not> needGC then (conf, None)
         else persistLocked save (\<lambda>c. c\<lparr>jobs := drop (gcIdx + 1) (jobs c)\<rparr>) conf)"

definition begin_job ::
  "(balanceRangeSchedulerJob list \<Rightarrow> string option) \<Rightarrow> time \<Rightarrow> int \<Rightarrow>
   balanceRangeSchedulerConfig \<Rightarrow> balanceRangeSchedulerConfig \<times> cfg_error option" where
  "begin_job save now index conf =
     (if index < 0 \<or> int (length (jobs conf)) \<le> index then (conf, Some PanicIndexOutOfRange)
      else
        let a = jobs conf ! nat index in
        if Status (heap conf ! a) \<noteq> pending
        then (conf, Some (ErrorsNew ''the job is not pending''))
        else persistLocked save
          (\<lambda>c. c\<lparr>heap := (heap c)[a := (heap c ! a)\<lparr>Start := Some now, Status := running\<rparr>]\<rparr>)
          conf)"

definition finish_job ::
  "(balanceRangeSchedulerJob list \<Rightarrow> string option) \<Rightarrow> time \<Rightarrow> int \<Rightarrow>
   balanceRangeSchedulerConfig \<Rightarrow> balanceRangeSchedulerConfig \<times> cfg_error option" where
  "finish_job save now index conf =
     (if index < 0 \<or> int (length (jobs conf)) \<le> index then (conf, Some PanicIndexOutOfRange)
      else
        let a = jobs conf ! nat index in
        if Status (heap conf ! a) \<noteq> running
        then (conf, Some (ErrorsNew ''the job is not running''))
        else persistLocked save
          (\<lambda>c. c\<lparr>heap := (heap c)[a := (heap c ! a)\<lparr>Finish := Some now, Status := finished\<rparr>]\<rparr>)
          conf)"

text \<open>
  A configuration is well formed when every pointer of the list points into the store.
  A pointer handed to \<^verbatim>\<open>addJob\<close> is that of a newly built job: it points into the store
  and is not yet in the list.
\<close>

definition conf_wf :: "balanceRangeSchedulerConfig \<Rightarrow> bool" where
  "conf_wf conf \<longleftrightarrow> list_all (\<lambda>a. a < length (heap conf)) (jobs conf)"

definition fresh_job :: "addr \<Rightarrow> balanceRangeSchedulerConfig \<Rightarrow> bool" where
  "fresh_job j conf \<longleftrightarrow> j < length (heap conf) \<and> j \<notin> set (jobs conf)"

text \<open>
  The update functions passed to \<^verbatim>\<open>persistLocked\<close> write only to objects that existed
  before the clone was taken: they leave every object at an address from \<open>n\<close> on alone.
\<close>

definition keeps_clones ::
  "nat \<Rightarrow> (balanceRangeSchedulerConfig \<Rightarrow> balanceRangeSchedulerConfig) \<Rightarrow> bool" where
  "keeps_clones n f \<longleftrightarrow>
     (\<forall>c. length (heap (f c)) = length (heap c) \<and> (\<forall>i\<ge>n. heap (f c) ! i = heap c ! i))"

text \<open>The five operations that change the job list, as one family.\<close>

datatype job_list_op =
    OpAddJob addr
  | OpDeleteJob "64 word"
  | OpBegin int
  | OpFinish int
  | OpGC

fun run_op ::
  "(balanceRangeSchedulerJob list \<Rightarrow> string option) \<Rightarrow> time \<Rightarrow> job_list_op \<Rightarrow>
   balanceRangeSchedulerConfig \<Rightarrow> balanceRangeSchedulerConfig \<times> cfg_error option" where
  "run_op save now (OpAddJob j) conf = addJob save j conf"
| "run_op save now (OpDeleteJob jobID) conf = deleteJob save now jobID conf"
| "run_op save now (OpBegin index) conf = begin_job save now index conf"
| "run_op save now (OpFinish index) conf = finish_job save now index conf"
| "run_op save now OpGC conf = gc save now conf"

fun op_pre :: "job_list_op \<Rightarrow> balanceRangeSchedulerConfig \<Rightarrow> bool" where
  "op_pre (OpAddJob j) conf = fresh_job j conf"
| "op_pre _ conf = True"

text \<open>A small job list used to run the operations on concrete data.\<close>

definition ex_job :: "string \<Rightarrow> 64 word \<Rightarrow> JobStatus \<Rightarrow> balanceRangeSchedulerJob" where
  "ex_job alias n st = \<lparr>JobID = n, Rule = LearnerScatter, Engine = ''tikv'', Timeout = 30 * Minute,
     Ranges = [([97], [98])], Alias = alias, Start = None, Finish = None, Create = 0, Status = st\<rparr>"

definition ex_conf :: balanceRangeSchedulerConfig where
  "ex_conf = \<lparr>heap = [ex_job ''T1'' 4 finished, ex_job ''T2'' 7 running, ex_job ''T1'' 0 running],
              jobs = [0, 1]\<rparr>"

text \<open>
  A request that is repeated: the job with the alias T1 is running, and a second job with
  the same alias is handed to \<^verbatim>\<open>addJob\<close>.
\<close>

definition ex_conf_repeated :: balanceRangeSchedulerConfig where
  "ex_conf_repeated = \<lparr>heap = [ex_job ''T1'' 1 running, ex_job ''T1'' 0 pending], jobs = [0]\<rparr>"

section \<open>Heartbeat stream wrapper (package server)\<close>

datatype ErrorType =
    OK | UNKNOWN | NOT_BOOTSTRAPPED | REGION_NOT_FOUND | REGIONS_NOT_CONTAIN_ALL_KEY_RANGE

definition heartbeatSendTimeout :: duration where
  "heartbeatSendTimeout = 5 * Second"

datatype stream_error = io_EOF | ErrSendHeartbeatTimeout | StreamErr string

text \<open>
  \<^verbatim>\<open>heartbeatServer\<close> wraps a gRPC stream. The model keeps the \<^verbatim>\<open>closed\<close> flag and, in
  place of the stream, the history of what was handed to it: the responses passed to the
  stream's \<^verbatim>\<open>Send\<close> and the number of calls of its \<^verbatim>\<open>Recv\<close>.
\<close>

record 'm heartbeatServer =
  closed :: "32 word"
  stream_sent :: "'m list"
  stream_recvs :: nat

text \<open>
  What the stream does with one \<^verbatim>\<open>Send\<close> is given from outside: how long the call takes
  and the error it returns, if any. \<^verbatim>\<open>Send\<close> of the wrapper starts the call in a goroutine
  and waits for its result or for the timer, whichever comes first; the timer wins when
  the call takes \<^verbatim>\<open>heartbeatSendTimeout\<close> or longer.
\<close>

record send_outcome =
  send_elapsed :: duration
  send_err :: "string option"

definition hb_Send ::
  "'m heartbeatServer \<Rightarrow> 'm \<Rightarrow> send_outcome \<Rightarrow> 'm heartbeatServer \<times> stream_error option" where
  "hb_Send s m out =
     (if closed s = 1 then (s, Some io_EOF)
      else
        let s1 = s\<lparr>stream_sent := stream_sent s @ [m]\<rparr> in
        if send_elapsed out < heartbeatSendTimeout then
          (case send_err out of
             Some e \<Rightarrow> (s1\<lparr>closed := 1\<rparr>, Some (StreamErr e))
           | None \<Rightarrow> (s1, None))
        else (s1\<lparr>closed := 1\<rparr>, Some ErrSendHeartbeatTimeout))"

definition hb_Recv ::
  "'m heartbeatServer \<Rightarrow> string + 'q \<Rightarrow> 'm heartbeatServer \<times> 'q option \<times> stream_error option" where
  "hb_Recv s out =
     (if closed s = 1 then (s, None, Some io_EOF)
      else
        let s1 = s\<lparr>stream_recvs := stream_recvs s + 1\<rparr> in
        case out of
          Inl e \<Rightarrow> (s1\<lparr>closed := 1\<rparr>, None, Some (StreamErr e))
        | Inr req \<Rightarrow> (s1, Some req, None))"

text \<open>A use of the wrapper is a sequence of calls, each with what the stream does.\<close>

datatype ('m, 'q) hb_call = CallSend 'm send_outcome | CallRecv "string + 'q"

datatype 'q hb_result = SendOk | RecvOk 'q | Failed stream_error

fun hb_step ::
  "'m heartbeatServer \<Rightarrow> ('m, 'q) hb_call \<Rightarrow> 'm heartbeatServer \<times> 'q hb_result" where
  "hb_step s (CallSend m out) =
     (case hb_Send s m out of
        (s', None) \<Rightarrow> (s', SendOk)
      | (s', Some e) \<Rightarrow> (s', Failed e))"
| "hb_step s (CallRecv out) =
     (case hb_Recv s out of
        (s', Some req, None) \<Rightarrow> (s', RecvOk req)
      | (s', None, None) \<Rightarrow> (s', Failed io_EOF)
      | (s', _, Some e) \<Rightarrow> (s', Failed e))"

fun hb_run ::
  "'m heartbeatServer \<Rightarrow> ('m, 'q) hb_call list \<Rightarrow> 'm heartbeatServer \<times> 'q hb_result list" where
  "hb_run s [] = (s, [])"
| "hb_run s (c # cs) =
     (case hb_step s c of (s1, r) \<Rightarrow>
        (case hb_run s1 cs of (s2, rs) \<Rightarrow> (s2, r # rs)))"

fun is_failure :: "'q hb_result \<Rightarrow> bool" where
  "is_failure (Failed e) = True"
| "is_failure _ = False"

definition ex_hb :: "nat heartbeatServer" where
  "ex_hb = \<lparr>closed = 0, stream_sent = [], stream_recvs = 0\<rparr>"

section \<open>Region heartbeat loop (package server)\<close>

record metaPeer =
  peer_Id :: "64 word"
  peer_StoreId :: "64 word"

record metaRegion =
  region_Id :: "64 word"
  region_StartKey :: key
  region_EndKey :: key
  region_Peers :: "metaPeer list"


record RegionInfo =
  meta :: "metaRegion option"
  leader :: "metaPeer option"

text \<open>The getters of the protobuf messages and of \<^verbatim>\<open>RegionInfo\<close> return zero values on nil.\<close>

definition GetStoreId :: "metaPeer option \<Rightarrow> 64 word" where
  "GetStoreId p = (case p of None \<Rightarrow> 0 | Some q \<Rightarrow> peer_StoreId q)"

definition GetLeader :: "RegionInfo \<Rightarrow> metaPeer option" where
  "GetLeader r = leader r"

definition GetID :: "RegionInfo \<Rightarrow> 64 word" where
  "GetID r = (case meta r of None \<Rightarrow> 0 | Some m \<Rightarrow> region_Id m)"

definition GetPeers :: "RegionInfo \<Rightarrow> metaPeer list" where
  "GetPeers r = (case meta r of None \<Rightarrow> [] | Some m \<Rightarrow> region_Peers m)"















section \<open>BatchScanRegions (package server)\<close>

text \<open>\<^verbatim>\<open>bytes.Compare\<close>: the lexicographic order of byte strings, as -1, 0 or 1.\<close>

fun bytes_Compare :: "key \<Rightarrow> key \<Rightarrow> int" where
  "bytes_Compare [] [] = 0"
| "bytes_Compare [] (y # ys) = - 1"
| "bytes_Compare (x # xs) [] = 1"
| "bytes_Compare (x # xs) (y # ys) =
     (if x < y then - 1 else if y < x then 1 else bytes_Compare xs ys)"

record BatchScanRegionsRequest =
  bsr_Ranges :: "(key \<times> key) list"
  bsr_Limit :: "32 word"
  bsr_ContainAllKeyRange :: bool
  bsr_NeedBuckets :: bool

record BatchScanRegionsResponse =
  resp_Header :: "ErrorType \<times> string"
  resp_Regions :: "RegionInfo list"

datatype scan_error = ErrRegionNotAdjacent | OtherScanError

text \<open>What \<^verbatim>\<open>unaryFollowerMiddleware\<close> returns, with the flag \<^verbatim>\<open>followerHandle\<close> it sets.\<close>

datatype middleware_result =
    MwError string
  | MwForwarded BatchScanRegionsResponse
  | MwLocal bool

text \<open>
  The services around the handler are parameters: the rate limiter, the middleware, the
  region syncer, whether there is a raft cluster, the cluster id, and the scan of the
  region tree \<^verbatim>\<open>rc.BatchScanRegions\<close> (package core, not among the sources), which gets the
  key ranges, the limit and the contain-all option and returns the regions or an error
  (the first of the combined errors and the text of the whole).
\<close>

record bsr_env =
  rateLimitCheck :: "string option"
  unaryFollowerMiddleware :: middleware_result
  syncer_IsRunning :: bool
  GetRaftCluster :: bool
  ClusterID :: "64 word"
  rc_BatchScanRegions ::
    "(key \<times> key) list \<Rightarrow> int \<Rightarrow> bool \<Rightarrow> (scan_error \<times> string) + RegionInfo list"

definition wrapErrorToHeader :: "ErrorType \<Rightarrow> string \<Rightarrow> ErrorType \<times> string" where
  "wrapErrorToHeader errorType message = (errorType, message)"

definition wrapHeader :: "64 word \<Rightarrow> ErrorType \<times> string" where
  "wrapHeader clusterID =
     (if clusterID = 0 then wrapErrorToHeader NOT_BOOTSTRAPPED ''cluster id is not ready''
      else (OK, ''''))"

definition notBootstrappedHeader :: "ErrorType \<times> string" where
  "notBootstrappedHeader = (NOT_BOOTSTRAPPED, ''cluster is not bootstrapped'')"

definition regionNotFound :: "ErrorType \<times> string" where
  "regionNotFound = (REGION_NOT_FOUND, ''region not found'')"

text \<open>
  The validation loop of \<^verbatim>\<open>BatchScanRegions\<close>. \<open>prev\<close> is the end key of the range before
  the current one (\<^verbatim>\<open>reqRanges[i-1].EndKey\<close>), absent for the first range; the result is
  the message of the first check that fails, or the key ranges collected.
\<close>

fun check_ranges ::
  "key option \<Rightarrow> (key \<times> key) list \<Rightarrow> (key \<times> key) list \<Rightarrow> string + (key \<times> key) list" where
  "check_ranges prev [] keyRanges = Inr keyRanges"
| "check_ranges prev ((StartKey, EndKey) # rest) keyRanges =
     (if (case prev of None \<Rightarrow> False | Some prevEnd \<Rightarrow> bytes_Compare StartKey prevEnd < 0)
      then Inl ''invalid key range, ranges overlapped''
      else if length EndKey > 0 \<and> bytes_Compare StartKey EndKey > 0
      then Inl ''invalid key range, start key > end key''
      else check_ranges (Some EndKey) rest (keyRanges @ [(StartKey, EndKey)]))"

definition empty_Peer :: metaPeer where
  "empty_Peer = \<lparr>peer_Id = 0, peer_StoreId = 0\<rparr>"

definition BatchScanRegions ::
  "bsr_env \<Rightarrow> BatchScanRegionsRequest \<Rightarrow> string + BatchScanRegionsResponse" where
  "BatchScanRegions env request =
     (case rateLimitCheck env of
        Some err \<Rightarrow> Inl err
      | None \<Rightarrow>
        (case unaryFollowerMiddleware env of
           MwError err \<Rightarrow> Inl err
         | MwForwarded rsp \<Rightarrow> Inr rsp
         | MwLocal followerHandle \<Rightarrow>
             if followerHandle \<and> \<not> syncer_IsRunning env
             then Inr \<lparr>resp_Header = regionNotFound, resp_Regions = []\<rparr>
             else if \<not> followerHandle \<and> \<not> GetRaftCluster env
             then Inr \<lparr>resp_Header = notBootstrappedHeader, resp_Regions = []\<rparr>
             else
               (case check_ranges None (bsr_Ranges request) [] of
                  Inl msg \<Rightarrow>
                    Inr \<lparr>resp_Header = wrapErrorToHeader UNKNOWN msg, resp_Regions = []\<rparr>
                | Inr keyRanges \<Rightarrow>
                    (case rc_BatchScanRegions env keyRanges (sint (bsr_Limit request))
                            (bsr_ContainAllKeyRange request) of
                       Inl (first, text) \<Rightarrow>
                         if first = ErrRegionNotAdjacent
                         then Inr \<lparr>resp_Header =
                                      wrapErrorToHeader REGIONS_NOT_CONTAIN_ALL_KEY_RANGE text,
                                    resp_Regions = []\<rparr>
                         else Inr \<lparr>resp_Header = wrapErrorToHeader UNKNOWN text,
                                    resp_Regions = []\<rparr>
                     | Inr res \<Rightarrow>
                         let regions = map (\<lambda>r. case leader r of
                                                    None \<Rightarrow> r\<lparr>leader := Some empty_Peer\<rparr>
                                                  | Some l \<Rightarrow> r) res
                         in if followerHandle \<and> length regions = 0
                            then Inr \<lparr>resp_Header = regionNotFound, resp_Regions = []\<rparr>
                            else Inr \<lparr>resp_Header = wrapHeader (ClusterID env),
                                       resp_Regions = regions\<rparr>))))"

text \<open>
  The two defects of a range that the loop looks for: it starts before the end key of the
  range before it, or its end key is not empty and smaller than its start key.
\<close>

definition overlaps_prev :: "key option \<Rightarrow> key \<times> key \<Rightarrow> bool" where
  "overlaps_prev prev r =
     (case prev of None \<Rightarrow> False | Some prevEnd \<Rightarrow> bytes_Compare (fst r) prevEnd < 0)"

definition reversed :: "key \<times> key \<Rightarrow> bool" where
  "reversed r \<longleftrightarrow> snd r \<noteq> [] \<and> bytes_Compare (snd r) (fst r) < 0"

fun ranges_valid :: "key option \<Rightarrow> (key \<times> key) list \<Rightarrow> bool" where
  "ranges_valid prev [] = True"
| "ranges_valid prev (r # rest) =
     (\<not> overlaps_prev prev r \<and> \<not> reversed r \<and> ranges_valid (Some (snd r)) rest)"

definition last_end :: "key option \<Rightarrow> (key \<times> key) list \<Rightarrow> key option" where
  "last_end prev rs = (if rs = [] then prev else Some (snd (last rs)))"

text \<open>The handler reaches the validation: the checks before it pass on this server.\<close>

definition reaches_validation :: "bsr_env \<Rightarrow> bool" where
  "reaches_validation env \<longleftrightarrow>
     rateLimitCheck env = None
     \<and> (case unaryFollowerMiddleware env of
          MwLocal followerHandle \<Rightarrow>
            (if followerHandle then syncer_IsRunning env else GetRaftCluster env)
        | _ \<Rightarrow> False)"

text \<open>A leader with a bootstrapped cluster whose scan finds no region.\<close>

definition ex_bsr_env :: "((scan_error \<times> string) + RegionInfo list) \<Rightarrow> bsr_env" where
  "ex_bsr_env res = \<lparr>rateLimitCheck = None, unaryFollowerMiddleware = MwLocal False,
     syncer_IsRunning = False, GetRaftCluster = True, ClusterID = 1,
     rc_BatchScanRegions = (\<lambda>_ _ _. res)\<rparr>"

definition ex_bsr_request :: "(key \<times> key) list \<Rightarrow> BatchScanRegionsRequest" where
  "ex_bsr_request rs = \<lparr>bsr_Ranges = rs, bsr_Limit = 10, bsr_ContainAllKeyRange = True,
     bsr_NeedBuckets = False\<rparr>"

section \<open>TSO allocator (package tso)\<close>

text \<open>
  Go computes with 64-bit integers that wrap around. \<open>int64\<close> is the value a mathematical
  integer has once stored in an \<^verbatim>\<open>int64\<close>, and \<open>go_div\<close> is Go's division, which truncates
  towards zero.
\<close>

definition int64 :: "int \<Rightarrow> int" where
  "int64 x = (x + 2 ^ 63) mod 2 ^ 64 - 2 ^ 63"

definition go_div :: "int \<Rightarrow> int \<Rightarrow> int" where
  "go_div a b = (if (a < 0) = (b < 0) then \<bar>a\<bar> div \<bar>b\<bar> else - (\<bar>a\<bar> div \<bar>b\<bar>))"

text \<open>
  \<^verbatim>\<open>t.UnixNano()\<close> is the nanosecond count of the instant as an \<^verbatim>\<open>int64\<close>; \<^verbatim>\<open>t.Add(d)\<close> moves
  the instant.
\<close>

definition UnixNano :: "time \<Rightarrow> int" where
  "UnixNano t = int64 t"

definition Add :: "time \<Rightarrow> duration \<Rightarrow> time" where
  "Add t d = t + d"

text \<open>
  The physical part of a timestamp in milliseconds, as \<^verbatim>\<open>generateTSO\<close> computes it:
  \<^verbatim>\<open>physical.UnixNano() / int64(time.Millisecond)\<close>.
\<close>

definition unixMilli :: "time \<Rightarrow> int" where
  "unixMilli t = go_div (UnixNano t) Millisecond"

text \<open>
  Modelled from the spec: package typeutil (\<^verbatim>\<open>ZeroTime\<close>, \<^verbatim>\<open>SubRealTimeByWallClock\<close>,
  \<^verbatim>\<open>SubTSOPhysicalByWallClock\<close>) is not among the sources. \<^verbatim>\<open>ZeroTime\<close> is Go's zero
  \<^verbatim>\<open>time.Time\<close>, the first instant of year 1, which is 62135596800 seconds before the Unix
  epoch. The spec's timestamps have a physical part in milliseconds: the difference of two
  physical times is the difference of their millisecond counts, and the difference of two
  wall-clock times is the difference of their nanosecond counts, as a \<^verbatim>\<open>time.Duration\<close>.
\<close>

definition ZeroTime :: time where
  "ZeroTime = - 62135596800 * 1000000000"

definition SubRealTimeByWallClock :: "time \<Rightarrow> time \<Rightarrow> duration" where
  "SubRealTimeByWallClock after before = int64 (UnixNano after - UnixNano before)"

definition SubTSOPhysicalByWallClock :: "time \<Rightarrow> time \<Rightarrow> int" where
  "SubTSOPhysicalByWallClock after before = int64 (unixMilli after - unixMilli before)"

text \<open>
  Modelled from the spec: \<^verbatim>\<open>tsoutil.ParseTS\<close> is not among the sources. A timestamp is the
  pair of a physical part in milliseconds and a logical counter below \<open>2^18\<close>, composed as
  \<open>physical \<cdot> 2^18 + logical\<close>; \<^verbatim>\<open>ParseTS\<close> takes it apart and returns the physical part as
  a time.
\<close>

definition ParseTS :: "64 word \<Rightarrow> time \<times> 64 word" where
  "ParseTS ts = (uint (drop_bit 18 ts) * Millisecond, ts AND (2 ^ 18 - 1))"

definition updateTimestampGuard :: duration where
  "updateTimestampGuard = Millisecond"

definition maxLogical :: int where
  "maxLogical = 2 ^ 18"


text \<open>
  Modelled from the spec: the constant \<^verbatim>\<open>errs.NotLeaderErr\<close> is not among the sources; it
  is the text of the not-leader error.
\<close>

definition NotLeaderErr :: string where
  "NotLeaderErr = ''is not leader''"

datatype tso_error =
    ErrResetUserTimestamp string
  | ErrUpdateTimestamp string
  | ErrGenerateTimestamp string
  | ErrEtcd string

text \<open>
  The oracle with what it depends on: the TSO in memory (\<^verbatim>\<open>tsoMux\<close>), the last saved time,
  the configuration, whether the member is serving, and the storage (the timestamp
  persisted there, and whether the lease under which writes are admitted is still held).
  A \<^verbatim>\<open>lastSavedTime\<close> that was never stored reads as \<^verbatim>\<open>ZeroTime\<close>, as \<^verbatim>\<open>getLastSavedTime\<close>
  returns it.
\<close>

record timestampOracle =
  physical :: time
  logical :: int
  lastSavedTime :: time
  saveInterval :: duration
  updatePhysicalInterval :: duration
  maxResetTSGap :: duration
  IsServing :: bool
  storage_ts :: time
  lease_held :: bool

text \<open>
  Modelled from the spec: the storage (\<^verbatim>\<open>endpoint.TSOStorage\<close>) is not among the sources.
  A write of the HWM is gated by a check of the lease immediately before the commit and
  fails when the lease is lost; it can also fail for reasons of the storage itself, given
  by \<open>fault\<close>. \<^verbatim>\<open>LoadTimestamp\<close> returns the persisted time (\<^verbatim>\<open>ZeroTime\<close> when there is
  none) or a fault.
\<close>

definition saveTimestamp ::
  "string option \<Rightarrow> time \<Rightarrow> timestampOracle \<Rightarrow> string + timestampOracle" where
  "saveTimestamp fault ts t =
     (if \<not> lease_held t then Inl ''etcd transaction failed, lease lost''
      else case fault of
             Some e \<Rightarrow> Inl e
           | None \<Rightarrow> Inr (t\<lparr>storage_ts := ts\<rparr>))"

definition LoadTimestamp :: "string option \<Rightarrow> timestampOracle \<Rightarrow> string + time" where
  "LoadTimestamp fault t = (case fault of Some e \<Rightarrow> Inl e | None \<Rightarrow> Inr (storage_ts t))"

definition setTSOPhysical :: "time \<Rightarrow> bool \<Rightarrow> timestampOracle \<Rightarrow> timestampOracle" where
  "setTSOPhysical next force t =
     (if physical t = ZeroTime \<and> \<not> force then t
      else if SubTSOPhysicalByWallClock next (physical t) > 0
      then t\<lparr>physical := next, logical := 0\<rparr>
      else t)"

definition getTSO :: "timestampOracle \<Rightarrow> time \<times> int" where
  "getTSO t = (if physical t = ZeroTime then (ZeroTime, 0) else (physical t, logical t))"

definition generateTSO :: "int \<Rightarrow> timestampOracle \<Rightarrow> timestampOracle \<times> int \<times> int" where
  "generateTSO count t =
     (if physical t = ZeroTime then (t, 0, 0)
      else
        let t1 = t\<lparr>logical := int64 (logical t + count)\<rparr>
        in (t1, unixMilli (physical t1), logical t1))"

definition getLastSavedTime :: "timestampOracle \<Rightarrow> time" where
  "getLastSavedTime t = lastSavedTime t"

definition isInitialized :: "timestampOracle \<Rightarrow> bool" where
  "isInitialized t \<longleftrightarrow> physical t \<noteq> ZeroTime"


definition resetUserTimestamp ::
  "string option \<Rightarrow> 64 word \<Rightarrow> bool \<Rightarrow> bool \<Rightarrow> timestampOracle \<Rightarrow>
   timestampOracle \<times> tso_error option" where
  "resetUserTimestamp save_fault tso ignoreSmaller skipUpperBoundCheck t =
     (if \<not> IsServing t then (t, Some (ErrResetUserTimestamp NotLeaderErr))
      else
        let (nextPhysical, nextLogical) = ParseTS tso;
            logicalDifference = int64 (int64 (uint nextLogical) - logical t);
            physicalDifference = SubTSOPhysicalByWallClock nextPhysical (physical t)
        in
        if physical t = ZeroTime
        then (t, Some (ErrResetUserTimestamp ''timestamp in memory has not been initialized''))
        else if physicalDifference < 0
        then (if ignoreSmaller then (t, None)
              else (t, Some (ErrResetUserTimestamp ''the specified ts is smaller than now'')))
        else if physicalDifference = 0 \<and> logicalDifference \<le> 0
        then (if ignoreSmaller then (t, None)
              else (t, Some (ErrResetUserTimestamp ''the specified counter is smaller than now'')))
        else if \<not> skipUpperBoundCheck
                \<and> physicalDifference \<ge> go_div (maxResetTSGap t) Millisecond
        then (t, Some (ErrResetUserTimestamp ''the specified ts is too larger than now''))
        else if SubRealTimeByWallClock (getLastSavedTime t) nextPhysical \<le> updateTimestampGuard
        then
          (let save = Add nextPhysical (saveInterval t)
           in case saveTimestamp save_fault save t of
                Inl err \<Rightarrow> (t, Some (ErrEtcd err))
              | Inr t1 \<Rightarrow>
                  (t1\<lparr>lastSavedTime := save, physical := nextPhysical,
                      logical := int64 (uint nextLogical)\<rparr>, None))
        else (t\<lparr>physical := nextPhysical, logical := int64 (uint nextLogical)\<rparr>, None))"

text \<open>
  \<^verbatim>\<open>updateTimestamp\<close>. The part after the choice of \<open>next\<close> is \<open>advance_to\<close>: extend the
  saved window if \<open>next\<close> comes within the guard of its end, then set the physical time.
\<close>

definition advance_to ::
  "string option \<Rightarrow> time \<Rightarrow> timestampOracle \<Rightarrow> timestampOracle \<times> tso_error option" where
  "advance_to save_fault next t =
     (if SubRealTimeByWallClock (getLastSavedTime t) next \<le> updateTimestampGuard
      then
        (let save = Add next (saveInterval t)
         in case saveTimestamp save_fault save t of
              Inl err \<Rightarrow> (t, Some (ErrEtcd err))
            | Inr t1 \<Rightarrow> (setTSOPhysical next False (t1\<lparr>lastSavedTime := save\<rparr>), None))
      else (setTSOPhysical next False t, None))"

definition updateTimestamp ::
  "time \<Rightarrow> string option \<Rightarrow> timestampOracle \<Rightarrow> timestampOracle \<times> tso_error option" where
  "updateTimestamp now save_fault t =
     (if \<not> isInitialized t
      then (t, Some (ErrUpdateTimestamp ''timestamp in memory has not been initialized''))
      else
        let (prevPhysical, prevLogical) = getTSO t;
            jetLag = SubRealTimeByWallClock now prevPhysical
        in
        if jetLag > updateTimestampGuard then advance_to save_fault now t
        else if prevLogical > go_div maxLogical 2
        then advance_to save_fault (Add prevPhysical Millisecond) t
        else (t, None))"


text \<open>
  The times on which \<^verbatim>\<open>t.UnixNano()\<close> is exact and not negative: from the Unix epoch (1970)
  to the last instant whose nanosecond count fits an \<^verbatim>\<open>int64\<close> (\<open>2^63\<close> ns, the year 2262).
\<close>

definition unix_nano_range :: "time \<Rightarrow> bool" where
  "unix_nano_range t \<longleftrightarrow> 0 \<le> t \<and> t < 2 ^ 63"

text \<open>
  An oracle in service: the physical time, the physical time plus 1 ms and the last saved
  time are in that range, the physical time is below the last saved time, and the save
  interval is not shorter than the guard.
\<close>

definition oracle_ok :: "timestampOracle \<Rightarrow> bool" where
  "oracle_ok t \<longleftrightarrow>
     unix_nano_range (physical t) \<and> unix_nano_range (Add (physical t) Millisecond)
     \<and> unix_nano_range (lastSavedTime t)
     \<and> physical t < lastSavedTime t \<and> updateTimestampGuard \<le> saveInterval t"

text \<open>
  An oracle on which \<^verbatim>\<open>resetUserTimestamp\<close> computes without overflow: if the TSO in memory
  is initialized, its physical time and the last saved time are in that range; the logical
  counter is not negative (and an \<^verbatim>\<open>int64\<close>, so below \<open>2^63\<close>).
\<close>

definition reset_ok :: "timestampOracle \<Rightarrow> bool" where
  "reset_ok t \<longleftrightarrow>
     (physical t = ZeroTime \<or> unix_nano_range (physical t) \<and> unix_nano_range (lastSavedTime t))
     \<and> 0 \<le> logical t \<and> logical t < 2 ^ 63"

text \<open>An oracle for running the operations on concrete data (times in nanoseconds).\<close>

definition ex_oracle :: "time \<Rightarrow> int \<Rightarrow> time \<Rightarrow> timestampOracle" where
  "ex_oracle p l s = \<lparr>physical = p, logical = l, lastSavedTime = s,
     saveInterval = 3 * Second, updatePhysicalInterval = 50 * Millisecond,
     maxResetTSGap = 24 * Hour, IsServing = True, storage_ts = s, lease_held = True\<rparr>"














section \<open>Balance-range scheduler: scheduling (package schedulers)\<close>

record StoreInfo =
  store_ID :: "64 word"

datatype OpKind = TransferLeader | ReplaceLeaderPeer | MovePeer

record Operator =
  op_Kind :: OpKind
  op_RegionID :: "64 word"
  op_SourceStore :: "64 word"
  op_TargetStore :: "64 word"
  op_sourceScore :: int
  op_targetScore :: int
  op_tolerate :: int

datatype region_query = RandLeaderRegions | RandFollowerRegions | RandLearnerRegions

text \<open>A call either returns or panics (on a nil pointer).\<close>

datatype 'a go = Panics | Returns 'a

text \<open>
  The cluster, the operator controller and the filters are parameters of the model:
  the source stores that pass the filters for an engine, the number of leaders, peers or
  learners a store has in a key range, the influence of the pending operators on a store
  for a rule, the target filters other than the exclusion filter (store state, special
  use, placement safeguard), the choice of a region of a store that passes the region
  filters, whether a region is hot, whether building an operator fails, and what
  \<^verbatim>\<open>sort.Slice\<close> makes of a slice of more than 12 stores (see below).

  The constant \<^verbatim>\<open>adjustRatio\<close> is not among the sources; it is a parameter, given as a
  fraction (numerator, denominator). The product \<^verbatim>\<open>float64(totalScore) * adjustRatio\<close> is
  taken exactly, without the rounding of floating-point numbers.
\<close>

record sched_env =
  SelectSourceStores :: "string \<Rightarrow> StoreInfo list"
  CountByRange :: "Rule \<Rightarrow> 64 word \<Rightarrow> key \<times> key \<Rightarrow> int"
  GetStoreInfluenceByRole :: "64 word \<Rightarrow> Rule \<Rightarrow> int"
  other_target_filters :: "RegionInfo \<Rightarrow> StoreInfo \<Rightarrow> StoreInfo \<Rightarrow> bool"
  SelectOneRegion :: "region_query \<Rightarrow> 64 word \<Rightarrow> RegionInfo option"
  IsRegionHot :: "RegionInfo \<Rightarrow> bool"
  CreateOperator_fails :: "OpKind \<Rightarrow> 64 word \<Rightarrow> 64 word \<Rightarrow> bool"
  adjustRatio :: "int \<times> int"
  pdqsort :: "(StoreInfo \<Rightarrow> int) \<Rightarrow> StoreInfo list \<Rightarrow> StoreInfo list"

record balanceRangeSchedulerPlan =
  stores :: "StoreInfo list"
  scoreMap :: "64 word \<Rightarrow> int"
  source :: "StoreInfo option"
  sourceScore :: int
  target :: "StoreInfo option"
  targetScore :: int
  region :: "RegionInfo option"
  averageScore :: int
  job :: balanceRangeSchedulerJob
  tolerate :: int

datatype prepare_error = ErrGetSourceStore string | ErrStoresNotEnough

text \<open>
  \<^verbatim>\<open>sort.Slice\<close> (package sort of the Go library) with the comparison \<open>key i > key j\<close>
  orders the stores by descending key. A slice of at most 12 elements is sorted by
  insertion: the elements are taken from left to right, and each one is swapped with its
  left neighbour as long as its key is greater than the neighbour's, so stores with equal
  keys keep their order. \<open>move_left\<close> is that inner loop; the part of the slice already
  sorted is held in reverse, its last element first. A longer slice is sorted by a
  pattern-defeating quicksort, which is not modelled: its result is the parameter
  \<open>long\<close>.
\<close>

fun move_left :: "('a \<Rightarrow> int) \<Rightarrow> 'a \<Rightarrow> 'a list \<Rightarrow> 'a list" where
  "move_left k x [] = [x]"
| "move_left k x (y # ys) = (if k x > k y then y # move_left k x ys else x # y # ys)"

definition insertionSort_desc :: "('a \<Rightarrow> int) \<Rightarrow> 'a list \<Rightarrow> 'a list" where
  "insertionSort_desc k xs = rev (foldl (\<lambda>sorted x. move_left k x sorted) [] xs)"

definition sort_Slice_desc ::
  "(('a \<Rightarrow> int) \<Rightarrow> 'a list \<Rightarrow> 'a list) \<Rightarrow> ('a \<Rightarrow> int) \<Rightarrow> 'a list \<Rightarrow> 'a list" where
  "sort_Slice_desc long k xs = (if length xs \<le> 12 then insertionSort_desc k xs else long k xs)"

text \<open>The score of a store: the sum over the key ranges of the job of its count.\<close>

definition store_count :: "sched_env \<Rightarrow> balanceRangeSchedulerJob \<Rightarrow> StoreInfo \<Rightarrow> int" where
  "store_count env j src =
     sum_list (map (\<lambda>kr. case Rule j of
                            UnknownRule \<Rightarrow> 0
                          | r \<Rightarrow> CountByRange env r (store_ID src) kr) (Ranges j))"

definition prepare ::
  "sched_env \<Rightarrow> balanceRangeSchedulerJob \<Rightarrow> prepare_error + balanceRangeSchedulerPlan" where
  "prepare env j =
     (if Engine j \<noteq> ''tikv'' \<and> Engine j \<noteq> ''tiflash'' then Inl (ErrGetSourceStore (Engine j))
      else
        let sources = SelectSourceStores env (Engine j) in
        if length sources \<le> 1 then Inl ErrStoresNotEnough
        else
          let scores = foldl (\<lambda>m src. m(store_ID src := store_count env j src)) (\<lambda>_. 0) sources;
              totalScore = sum_list (map (store_count env j) sources);
              sorted = sort_Slice_desc (pdqsort env)
                         (\<lambda>s. scores (store_ID s)
                               + GetStoreInfluenceByRole env (store_ID s) (Rule j)) sources;
              average = go_div totalScore (int (length sorted));
              tolerantSizeRatio = go_div (totalScore * fst (adjustRatio env)) (snd (adjustRatio env))
          in Inr \<lparr>stores = sorted, scoreMap = scores, source = None, sourceScore = 0,
                  target = None, targetScore = 0, region = None, averageScore = average,
                  job = j,
                  tolerate = (if tolerantSizeRatio < 1 then 1 else tolerantSizeRatio)\<rparr>)"

definition score :: "balanceRangeSchedulerPlan \<Rightarrow> 64 word \<Rightarrow> int" where
  "score p storeID = scoreMap p storeID"

definition shouldBalance :: "sched_env \<Rightarrow> balanceRangeSchedulerPlan \<Rightarrow> bool go" where
  "shouldBalance env p =
     (case (source p, target p) of
        (Some src, Some tgt) \<Rightarrow>
          let sourceInf0 = GetStoreInfluenceByRole env (store_ID src) (Rule (job p));
              sourceInf = (if sourceInf0 < 0 then - sourceInf0 else sourceInf0);
              sourceScore' = sourceScore p - sourceInf - tolerate p;
              targetInf0 = GetStoreInfluenceByRole env (store_ID tgt) (Rule (job p));
              targetInf = (if targetInf0 < 0 then - targetInf0 else targetInf0);
              targetScore' = targetScore p + targetInf + tolerate p
          in Returns (sourceScore' \<ge> targetScore')
      | _ \<Rightarrow> Panics)"

text \<open>
  \<^verbatim>\<open>GetStoreIDs\<close> and \<^verbatim>\<open>GetStorePeer\<close> of a region (package core): the stores of its peers,
  and its peer on a store.
\<close>

definition GetStoreIDs :: "RegionInfo \<Rightarrow> 64 word list" where
  "GetStoreIDs r = map peer_StoreId (GetPeers r)"

definition GetStorePeer :: "RegionInfo \<Rightarrow> 64 word \<Rightarrow> metaPeer option" where
  "GetStorePeer r storeID = find (\<lambda>p. peer_StoreId p = storeID) (GetPeers r)"

text \<open>
  Modelled from the spec: \<^verbatim>\<open>filter.NewExcludedFilter\<close> is not among the sources. As a target
  filter it excludes the stores whose id is in the given set: the stores already holding
  a peer of the region, or in LeaderScatter mode only the store of the current leader.
\<close>

definition excluded_filter_target :: "64 word list \<Rightarrow> StoreInfo \<Rightarrow> bool" where
  "excluded_filter_target excludeTargets s \<longleftrightarrow> store_ID s \<notin> set excludeTargets"

definition excludeTargets_of :: "balanceRangeSchedulerJob \<Rightarrow> RegionInfo \<Rightarrow> 64 word list" where
  "excludeTargets_of j r =
     (if Rule j = LeaderScatter then [GetStoreId (GetLeader r)] else GetStoreIDs r)"

text \<open>
  The loop of \<^verbatim>\<open>transferPeer\<close> over the candidates, in the order in which it visits them
  (from the last candidate to the first).
\<close>

fun transferPeer_loop ::
  "sched_env \<Rightarrow> balanceRangeSchedulerPlan \<Rightarrow> StoreInfo \<Rightarrow> RegionInfo \<Rightarrow> StoreInfo list \<Rightarrow>
   Operator option go" where
  "transferPeer_loop env p src r [] = Returns None"
| "transferPeer_loop env p src r (tgt # rest) =
     (let p1 = p\<lparr>target := Some tgt, targetScore := score p (store_ID tgt)\<rparr> in
      if targetScore p1 > averageScore p1 then Returns None
      else
        case shouldBalance env p1 of
          Panics \<Rightarrow> Panics
        | Returns False \<Rightarrow> transferPeer_loop env p1 src r rest
        | Returns True \<Rightarrow>
            let sourceID = store_ID src;
                targetID = store_ID tgt;
                exist = (Rule (job p1) = LeaderScatter
                         \<and> (\<exists>peer \<in> set (GetPeers r). peer_StoreId peer = targetID));
                built = (\<lambda>kind.
                  if CreateOperator_fails env kind sourceID targetID then Returns None
                  else Returns (Some \<lparr>op_Kind = kind, op_RegionID = GetID r,
                         op_SourceStore = sourceID, op_TargetStore = targetID,
                         op_sourceScore = sourceScore p1, op_targetScore = targetScore p1,
                         op_tolerate = tolerate p1\<rparr>))
            in if exist then built TransferLeader
               else case GetStorePeer r sourceID of
                      None \<Rightarrow> Panics
                    | Some oldPeer \<Rightarrow>
                        if GetStoreId (GetLeader r) = sourceID then built ReplaceLeaderPeer
                        else built MovePeer)"

definition candidates_of ::
  "sched_env \<Rightarrow> balanceRangeSchedulerPlan \<Rightarrow> StoreInfo \<Rightarrow> RegionInfo \<Rightarrow> StoreInfo list \<Rightarrow>
   StoreInfo list" where
  "candidates_of env p src r dstStores =
     filter (\<lambda>s. excluded_filter_target (excludeTargets_of (job p) r) s
                  \<and> other_target_filters env r src s) dstStores"

definition transferPeer ::
  "sched_env \<Rightarrow> balanceRangeSchedulerPlan \<Rightarrow> StoreInfo list \<Rightarrow> Operator option go" where
  "transferPeer env p dstStores =
     (case (source p, region p) of
        (Some src, Some r) \<Rightarrow>
          transferPeer_loop env p src r (rev (candidates_of env p src r dstStores))
      | _ \<Rightarrow> Panics)"

text \<open>The choice of the region in \<^verbatim>\<open>Schedule\<close>, by the rule of the job.\<close>

definition select_region ::
  "sched_env \<Rightarrow> balanceRangeSchedulerPlan \<Rightarrow> 64 word \<Rightarrow> RegionInfo option" where
  "select_region env p sourceID =
     (case Rule (job p) of
        LeaderScatter \<Rightarrow> SelectOneRegion env RandLeaderRegions sourceID
      | LearnerScatter \<Rightarrow> SelectOneRegion env RandLearnerRegions sourceID
      | PeerScatter \<Rightarrow>
          (case SelectOneRegion env RandFollowerRegions sourceID of
             Some r \<Rightarrow> Some r
           | None \<Rightarrow>
               (case SelectOneRegion env RandLeaderRegions sourceID of
                  Some r \<Rightarrow> Some r
                | None \<Rightarrow> SelectOneRegion env RandLearnerRegions sourceID))
      | UnknownRule \<Rightarrow> region p)"

text \<open>
  The loop of \<^verbatim>\<open>Schedule\<close> over the sources; the list is \<^verbatim>\<open>plan.stores[sourceIndex:]\<close>, so
  that its tail is the list of the destination stores handed to \<^verbatim>\<open>transferPeer\<close>.
\<close>

fun Schedule_loop ::
  "sched_env \<Rightarrow> balanceRangeSchedulerPlan \<Rightarrow> StoreInfo list \<Rightarrow> Operator option go" where
  "Schedule_loop env p [] = Returns None"
| "Schedule_loop env p (sourceStore # rest) =
     (let p1 = p\<lparr>source := Some sourceStore, sourceScore := score p (store_ID sourceStore)\<rparr> in
      if sourceScore p1 < averageScore p1 then Returns None
      else
        let p2 = p1\<lparr>region := select_region env p1 (store_ID sourceStore)\<rparr> in
        case region p2 of
          None \<Rightarrow> Schedule_loop env p2 rest
        | Some r \<Rightarrow>
            if IsRegionHot env r then Schedule_loop env p2 rest
            else if GetLeader r = None then Schedule_loop env p2 rest
            else
              (case transferPeer env p2 rest of
                 Panics \<Rightarrow> Panics
               | Returns (Some op) \<Rightarrow> Returns (Some op)
               | Returns None \<Rightarrow> Schedule_loop env p2 rest))"

definition Schedule :: "sched_env \<Rightarrow> balanceRangeSchedulerJob option \<Rightarrow> Operator option go" where
  "Schedule env peeked =
     (case peeked of
        None \<Rightarrow> Returns None
      | Some j \<Rightarrow>
          (case prepare env j of
             Inl err \<Rightarrow> Returns None
           | Inr p \<Rightarrow> Schedule_loop env p (stores p)))"

text \<open>
  The quantities the scheduling decisions are stated in: the influence on a store taken
  without its sign, the tolerance condition between a source (with a given score) and a
  target, and the key by which \<^verbatim>\<open>prepare\<close> sorts the stores.
\<close>

definition abs_influence :: "sched_env \<Rightarrow> balanceRangeSchedulerPlan \<Rightarrow> StoreInfo \<Rightarrow> int" where
  "abs_influence env p s = \<bar>GetStoreInfluenceByRole env (store_ID s) (Rule (job p))\<bar>"

definition tolerance_holds ::
  "sched_env \<Rightarrow> balanceRangeSchedulerPlan \<Rightarrow> int \<Rightarrow> StoreInfo \<Rightarrow> StoreInfo \<Rightarrow> bool" where
  "tolerance_holds env p srcScore src tgt \<longleftrightarrow>
     srcScore - abs_influence env p src - tolerate p
       \<ge> score p (store_ID tgt) + abs_influence env p tgt + tolerate p"

definition adjusted_score :: "sched_env \<Rightarrow> balanceRangeSchedulerPlan \<Rightarrow> StoreInfo \<Rightarrow> int" where
  "adjusted_score env p s =
     score p (store_ID s) + GetStoreInfluenceByRole env (store_ID s) (Rule (job p))"

text \<open>
  What the theorems assume of the sort of a long slice: its result is in descending order
  of the key, as the documentation of \<^verbatim>\<open>sort.Slice\<close> says.
\<close>

definition pdqsort_sorts :: "sched_env \<Rightarrow> bool" where
  "pdqsort_sorts env \<longleftrightarrow>
     (\<forall>k xs. 12 < length xs \<longrightarrow> sorted_wrt (\<lambda>a b. k a \<ge> k b) (pdqsort env k xs))"

definition not_excluded :: "balanceRangeSchedulerPlan \<Rightarrow> RegionInfo \<Rightarrow> StoreInfo \<Rightarrow> bool" where
  "not_excluded p r tgt \<longleftrightarrow>
     (if Rule (job p) = LeaderScatter then store_ID tgt \<noteq> GetStoreId (GetLeader r)
      else store_ID tgt \<notin> set (GetStoreIDs r))"

text \<open>
  What holds of an operator \<open>op\<close> that \<^verbatim>\<open>Schedule\<close> built with source \<open>src\<close>, destination
  stores \<open>post\<close> (the stores after the source in \<^verbatim>\<open>plan.stores\<close>), region \<open>r\<close> and target
  \<open>tgt\<close>, after the candidates \<open>visited\<close> had been tried and passed over. The region is
  the one that \<^verbatim>\<open>Schedule\<close> selected for the source, and the operator is for that region.
\<close>

definition built_for ::
  "sched_env \<Rightarrow> balanceRangeSchedulerPlan \<Rightarrow> Operator \<Rightarrow> StoreInfo \<Rightarrow> StoreInfo list \<Rightarrow>
   RegionInfo \<Rightarrow> StoreInfo \<Rightarrow> StoreInfo list \<Rightarrow> bool" where
  "built_for env p op src post r tgt visited \<longleftrightarrow>
     select_region env p (store_ID src) = Some r
     \<and> op_RegionID op = GetID r
     \<and> op_SourceStore op = store_ID src \<and> op_TargetStore op = store_ID tgt
     \<and> op_sourceScore op = score p (store_ID src) \<and> op_targetScore op = score p (store_ID tgt)
     \<and> op_tolerate op = tolerate p
     \<and> averageScore p \<le> score p (store_ID src)
     \<and> score p (store_ID tgt) \<le> averageScore p
     \<and> tolerance_holds env p (score p (store_ID src)) src tgt
     \<and> tgt \<in> set post \<and> not_excluded p r tgt
     \<and> (\<exists>rest. rev (candidates_of env p src r post) = visited @ tgt # rest)
     \<and> list_all (\<lambda>c. score p (store_ID c) \<le> averageScore p
                     \<and> \<not> tolerance_holds env p (score p (store_ID src)) src c) visited"

text \<open>
  Three stores with scores 20, 3 and 9, of which the second and the third have pending
  operators with influence 10 and 3, and a region with peers on stores 1 and 4 led from
  store 4.
\<close>

definition ex_region :: RegionInfo where
  "ex_region = \<lparr>meta = Some \<lparr>region_Id = 100, region_StartKey = [97], region_EndKey = [98],
       region_Peers = [\<lparr>peer_Id = 11, peer_StoreId = 1\<rparr>, \<lparr>peer_Id = 14, peer_StoreId = 4\<rparr>]\<rparr>,
     leader = Some \<lparr>peer_Id = 14, peer_StoreId = 4\<rparr>\<rparr>"

definition ex_sched_env :: sched_env where
  "ex_sched_env = \<lparr>
     SelectSourceStores = (\<lambda>e. [\<lparr>store_ID = 1\<rparr>, \<lparr>store_ID = 2\<rparr>, \<lparr>store_ID = 3\<rparr>]),
     CountByRange = (\<lambda>r id kr. if id = 1 then 20 else if id = 2 then 3
                                 else if id = 3 then 9 else 0),
     GetStoreInfluenceByRole = (\<lambda>id r. if id = 2 then 10 else if id = 3 then 3 else 0),
     other_target_filters = (\<lambda>r s t. True),
     SelectOneRegion = (\<lambda>q id. if q = RandFollowerRegions \<and> id = 1 then Some ex_region
                                else None),
     IsRegionHot = (\<lambda>r. False),
     CreateOperator_fails = (\<lambda>k s t. False),
     adjustRatio = (1, 200),
     pdqsort = insertionSort_desc\<rparr>"

definition ex_sched_job :: balanceRangeSchedulerJob where
  "ex_sched_job = (ex_job ''T1'' 1 running)\<lparr>Rule := PeerScatter\<rparr>"

definition ex_operator :: Operator where
  "ex_operator = \<lparr>op_Kind = MovePeer, op_RegionID = 100, op_SourceStore = 1,
     op_TargetStore = 3, op_sourceScore = 20, op_targetScore = 9, op_tolerate = 1\<rparr>"

definition ex_plan :: balanceRangeSchedulerPlan where
  "ex_plan = projr (prepare ex_sched_env ex_sched_job)"

section \<open>Properties\<close>

subsection \<open>The job list of the balance-range scheduler\<close>

lemma clone_values:
  assumes "length h = n + length js" and "\<forall>k<length js. h ! (n + k) = v ! (js ! k)"
  shows "map (\<lambda>a. h ! a) [n ..< n + length js] = map (\<lambda>a. v ! a) js"
  using assms by (intro nth_equalityI) (auto simp: nth_append)

lemma persistLocked_restores:
  assumes k: "keeps_clones (length (heap conf)) f"
    and r: "persistLocked save f conf = (conf', Some e)"
  shows "job_values conf' = job_values conf"
proof -
  let ?n = "length (heap conf)"
  let ?h = "heap conf @ map (\<lambda>a. heap conf ! a) (jobs conf)"
  let ?c1 = "f (conf\<lparr>heap := ?h\<rparr>)"
  from r have c': "conf' = ?c1\<lparr>jobs := [?n ..< ?n + length (jobs conf)]\<rparr>"
    by (auto simp: persistLocked_def cloneLocked_def Let_def split: option.splits)
  from k have len: "length (heap ?c1) = ?n + length (jobs conf)"
    and same: "\<forall>i\<ge>?n. heap ?c1 ! i = ?h ! i"
    by (simp_all add: keeps_clones_def)
  have "\<forall>k<length (jobs conf). heap ?c1 ! (?n + k) = heap conf ! (jobs conf ! k)"
    using same by (simp add: nth_append)
  with len have "map (\<lambda>a. heap ?c1 ! a) [?n ..< ?n + length (jobs conf)]
      = map (\<lambda>a. heap conf ! a) (jobs conf)"
    by (rule clone_values)
  then show ?thesis by (simp add: c' job_values_def)
qed

lemma keeps_clones_jobs: "keeps_clones n (\<lambda>c. c\<lparr>jobs := g (jobs c)\<rparr>)"
  by (simp add: keeps_clones_def)

lemma job_values_write_other:
  "j \<notin> set (jobs conf) \<Longrightarrow> job_values (conf\<lparr>heap := (heap conf)[j := v]\<rparr>) = job_values conf"
proof -
  assume "j \<notin> set (jobs conf)"
  then have "\<forall>a\<in>set (jobs conf). (heap conf)[j := v] ! a = heap conf ! a"
    by (metis nth_list_update_neq)
  then show ?thesis by (simp add: job_values_def)
qed

lemma addJob_error_keeps:
  assumes "fresh_job j conf" "addJob save j conf = (conf', Some e)"
  shows "job_values conf' = job_values conf"
proof (cases "alias_exists (job_values conf) (Alias (heap conf ! j))")
  case True
  with assms show ?thesis by (simp add: addJob_def)
next
  case False
  define h2 where "h2 = (let h1 = (heap conf)[j := (heap conf ! j)\<lparr>Status := pending\<rparr>];
            newID = (if length (jobs conf) = 0 then 1
                     else JobID (h1 ! (jobs conf ! (length (jobs conf) - 1))) + 1)
            in h1[j := (h1 ! j)\<lparr>JobID := newID\<rparr>])"
  from False assms(2) have r: "persistLocked save (\<lambda>c. c\<lparr>jobs := jobs c @ [j]\<rparr>) (conf\<lparr>heap := h2\<rparr>) = (conf', Some e)"
    by (simp add: addJob_def h2_def Let_def)
  have "job_values conf' = job_values (conf\<lparr>heap := h2\<rparr>)"
    using persistLocked_restores [OF keeps_clones_jobs r] .
  also have "\<dots> = job_values conf"
    using assms(1) by (simp add: h2_def Let_def fresh_job_def job_values_write_other)
  finally show ?thesis .
qed

lemma deleteJob_loop_error_keeps:
  assumes "list_all (\<lambda>a. a < length (heap conf)) as"
    and "deleteJob_loop save now jobID as conf = (conf', Some e)"
  shows "job_values conf' = job_values conf"
  using assms
proof (induction as)
  case Nil
  then show ?case by simp
next
  case (Cons a as)
  show ?case
  proof (cases "JobID (heap conf ! a) = jobID")
    case False
    with Cons show ?thesis by simp
  next
    case True
    show ?thesis
    proof (cases "isComplete (heap conf ! a)")
      case True
      with \<open>JobID (heap conf ! a) = jobID\<close> Cons.prems show ?thesis by simp
    next
      case False
      from Cons.prems have a: "a < length (heap conf)" by simp
      have k: "keeps_clones (length (heap conf)) (\<lambda>c. let job = heap c ! a;
                     job1 = job\<lparr>Status := cancelled\<rparr>;
                     job2 = (if Start job1 = None then job1\<lparr>Start := Some now\<rparr> else job1);
                     job3 = job2\<lparr>Finish := Some now\<rparr>
                 in c\<lparr>heap := (heap c)[a := job3]\<rparr>)"
        using a by (simp add: keeps_clones_def Let_def)
      from False True Cons.prems(2) show ?thesis
        by (simp add: persistLocked_restores [OF k])
    qed
  qed
qed

lemma gc_error_keeps:
  assumes "gc save now conf = (conf', Some e)"
  shows "job_values conf' = job_values conf"
  using assms
  by (auto simp: gc_def Let_def split: prod.splits if_splits
      intro: persistLocked_restores [OF keeps_clones_jobs])

lemma begin_error_keeps:
  assumes "conf_wf conf" "begin_job save now index conf = (conf', Some e)"
  shows "job_values conf' = job_values conf"
proof (cases "index < 0 \<or> int (length (jobs conf)) \<le> index")
  case True
  with assms show ?thesis by (simp add: begin_job_def)
next
  case False
  then have "nat index < length (jobs conf)" by linarith
  then have "jobs conf ! nat index < length (heap conf)"
    using assms(1) by (simp add: conf_wf_def list_all_length)
  then have k: "keeps_clones (length (heap conf))
    (\<lambda>c. c\<lparr>heap := (heap c)[jobs conf ! nat index := (heap c ! (jobs conf ! nat index))\<lparr>Start := Some now, Status := running\<rparr>]\<rparr>)"
    by (simp add: keeps_clones_def)
  from False assms(2) show ?thesis
    by (auto simp: begin_job_def Let_def split: if_splits intro: persistLocked_restores [OF k])
qed

lemma finish_error_keeps:
  assumes "conf_wf conf" "finish_job save now index conf = (conf', Some e)"
  shows "job_values conf' = job_values conf"
proof (cases "index < 0 \<or> int (length (jobs conf)) \<le> index")
  case True
  with assms show ?thesis by (simp add: finish_job_def)
next
  case False
  then have "nat index < length (jobs conf)" by linarith
  then have "jobs conf ! nat index < length (heap conf)"
    using assms(1) by (simp add: conf_wf_def list_all_length)
  then have k: "keeps_clones (length (heap conf))
    (\<lambda>c. c\<lparr>heap := (heap c)[jobs conf ! nat index := (heap c ! (jobs conf ! nat index))\<lparr>Finish := Some now, Status := finished\<rparr>]\<rparr>)"
    by (simp add: keeps_clones_def)
  from False assms(2) show ?thesis
    by (auto simp: finish_job_def Let_def split: if_splits intro: persistLocked_restores [OF k])
qed

text \<open>
  C10: every operation that changes the job list (\<^verbatim>\<open>addJob\<close>, \<^verbatim>\<open>deleteJob\<close>,
  \<^verbatim>\<open>begin\<close>, \<^verbatim>\<open>finish\<close>, \<^verbatim>\<open>gc\<close>) is atomic with respect to a failure to persist:
  when it returns an error, the jobs seen through \<^verbatim>\<open>conf.jobs\<close> are those from before the call.
  The update goes through \<^verbatim>\<open>persistLocked\<close>, which restores the deep copy taken before
  the update ran.
\<close>

theorem job_list_update_atomic:
  assumes "conf_wf conf" and "op_pre op conf"
    and "run_op save now op conf = (conf', Some e)"
  shows "job_values conf' = job_values conf"
proof (cases op)
  case (OpAddJob j)
  with assms show ?thesis by (simp add: addJob_error_keeps)
next
  case (OpDeleteJob jobID)
  with assms show ?thesis
    by (simp add: deleteJob_def conf_wf_def deleteJob_loop_error_keeps)
next
  case (OpBegin index)
  with assms show ?thesis by (simp add: begin_error_keeps)
next
  case (OpFinish index)
  with assms show ?thesis by (simp add: finish_error_keeps)
next
  case OpGC
  with assms show ?thesis by (simp add: gc_error_keeps)
qed

lemma alias_exists_iff:
  "alias_exists cs alias \<longleftrightarrow> (\<exists>c\<in>set cs. \<not> isComplete c \<and> Alias c = alias)"
  by (induction cs) auto

lemma job_values_extend:
  assumes "conf_wf conf"
  shows "map (\<lambda>a. (heap conf @ extra) ! a) (jobs conf) = job_values conf"
  using assms by (auto simp: conf_wf_def list_all_iff job_values_def nth_append)

lemma addJob_unfolded:
  assumes wf: "conf_wf conf" and fr: "fresh_job j conf"
  defines "new \<equiv> (heap conf ! j)\<lparr>Status := pending,
                               JobID := (if job_values conf = [] then 1
                                         else JobID (last (job_values conf)) + 1)\<rparr>"
  shows "addJob save j conf =
     (if alias_exists (job_values conf) (Alias (heap conf ! j))
      then (conf, Some (ErrorsNew ''job already exists''))
      else persistLocked save (\<lambda>c. c\<lparr>jobs := jobs c @ [j]\<rparr>)
             (conf\<lparr>heap := (heap conf)[j := new]\<rparr>))"
proof -
  from fr have j: "j < length (heap conf)" and nj: "j \<notin> set (jobs conf)"
    by (simp_all add: fresh_job_def)
  have lastj: "jobs conf \<noteq> [] \<Longrightarrow>
      (heap conf)[j := (heap conf ! j)\<lparr>Status := pending\<rparr>] ! (jobs conf ! (length (jobs conf) - 1))
        = last (job_values conf)"
  proof -
    assume ne: "jobs conf \<noteq> []"
    then have "jobs conf ! (length (jobs conf) - 1) \<in> set (jobs conf)" by simp
    with nj have "jobs conf ! (length (jobs conf) - 1) \<noteq> j" by metis
    then show ?thesis using ne by (simp add: job_values_def last_map last_conv_nth)
  qed
  have h2: "(let h1 = (heap conf)[j := (heap conf ! j)\<lparr>Status := pending\<rparr>];
            newID = (if length (jobs conf) = 0 then 1
                     else JobID (h1 ! (jobs conf ! (length (jobs conf) - 1))) + 1)
            in h1[j := (h1 ! j)\<lparr>JobID := newID\<rparr>]) = (heap conf)[j := new]"
    using j lastj by (auto simp: Let_def new_def job_values_def)
  show ?thesis using h2 by (simp add: addJob_def Let_def)
qed

lemma addJob_written:
  assumes wf: "conf_wf conf" and fr: "fresh_job j conf"
  shows "job_values (conf\<lparr>heap := (heap conf)[j := new] @ job_values conf, jobs := jobs conf @ [j]\<rparr>)
      = job_values conf @ [new]"
proof -
  from fr have j: "j < length (heap conf)" and nj: "j \<notin> set (jobs conf)"
    by (simp_all add: fresh_job_def)
  let ?h2 = "(heap conf)[j := new]"
  have v2: "job_values (conf\<lparr>heap := ?h2\<rparr>) = job_values conf"
    using nj by (simp add: job_values_write_other)
  have wf2: "conf_wf (conf\<lparr>heap := ?h2\<rparr>)"
    using wf by (simp add: conf_wf_def)
  have "job_values (conf\<lparr>heap := ?h2 @ job_values conf, jobs := jobs conf @ [j]\<rparr>)
      = map (\<lambda>a. (?h2 @ job_values conf) ! a) (jobs conf) @ [(?h2 @ job_values conf) ! j]"
    by (simp add: job_values_def)
  also have "map (\<lambda>a. (?h2 @ job_values conf) ! a) (jobs conf) = job_values conf"
    using job_values_extend [OF wf2, of "job_values conf"] by (simp add: v2)
  also have "(?h2 @ job_values conf) ! j = new"
    using j by (simp add: nth_append)
  finally show ?thesis .
qed

text \<open>
  C9: \<^verbatim>\<open>addJob\<close> fails with "job already exists" exactly when a job of the list whose
  status is neither finished nor cancelled has the alias of the new job, and then leaves
  the configuration as it is; so a finished or cancelled job with the same alias does not
  block the add. The add succeeds exactly when no such job exists and the save succeeds;
  the job that was added is then at the end of the list, with status pending and with the
  id of the previously last job plus one (1 for an empty list).
\<close>

theorem addJob_alias_unique_id_incremented:
  assumes wf: "conf_wf conf" and fr: "fresh_job j conf"
  shows "(snd (addJob save j conf) = Some (ErrorsNew ''job already exists'')
          \<longleftrightarrow> (\<exists>c\<in>set (job_values conf). Status c \<noteq> finished \<and> Status c \<noteq> cancelled
                                           \<and> Alias c = Alias (heap conf ! j)))
       \<and> (snd (addJob save j conf) = Some (ErrorsNew ''job already exists'')
            \<longrightarrow> fst (addJob save j conf) = conf)
       \<and> (snd (addJob save j conf) = None
          \<longleftrightarrow> \<not> (\<exists>c\<in>set (job_values conf). Status c \<noteq> finished \<and> Status c \<noteq> cancelled
                                           \<and> Alias c = Alias (heap conf ! j))
              \<and> save (job_values conf @
                   [(heap conf ! j)\<lparr>Status := pending,
                       JobID := (if job_values conf = [] then 1
                                 else JobID (last (job_values conf)) + 1)\<rparr>]) = None)
       \<and> (snd (addJob save j conf) = None
            \<longrightarrow> job_values (fst (addJob save j conf)) = job_values conf @
                  [(heap conf ! j)\<lparr>Status := pending,
                       JobID := (if job_values conf = [] then 1
                                 else JobID (last (job_values conf)) + 1)\<rparr>])"
proof -
  define new where "new = (heap conf ! j)\<lparr>Status := pending,
                               JobID := (if job_values conf = [] then 1
                                         else JobID (last (job_values conf)) + 1)\<rparr>"
  define blocked where "blocked \<longleftrightarrow>
    (\<exists>c\<in>set (job_values conf). Status c \<noteq> finished \<and> Status c \<noteq> cancelled
                                           \<and> Alias c = Alias (heap conf ! j))"
  define c1 where
    "c1 = conf\<lparr>heap := (heap conf)[j := new] @ job_values conf, jobs := jobs conf @ [j]\<rparr>"
  define origin where
    "origin = [length (heap conf) ..< length (heap conf) + length (jobs conf)]"
  have al: "alias_exists (job_values conf) (Alias (heap conf ! j)) \<longleftrightarrow> blocked"
    by (auto simp: alias_exists_iff isComplete_def blocked_def)
  from fr have nj: "j \<notin> set (jobs conf)" by (simp add: fresh_job_def)
  have "\<forall>a\<in>set (jobs conf). (heap conf)[j := new] ! a = heap conf ! a"
    using nj by (metis nth_list_update_neq)
  then have mv: "map ((!) ((heap conf)[j := new])) (jobs conf) = job_values conf"
    by (simp add: job_values_def)
  have w: "job_values c1 = job_values conf @ [new]"
    unfolding c1_def using wf fr by (rule addJob_written)
  have cl: "cloneLocked (conf\<lparr>heap := (heap conf)[j := new]\<rparr>)
      = ((heap conf)[j := new] @ job_values conf, origin)"
    by (simp add: cloneLocked_def mv origin_def)
  have c1': "(conf\<lparr>heap := (heap conf)[j := new]\<rparr>)
       \<lparr>heap := (heap conf)[j := new] @ job_values conf,
        jobs := jobs (conf\<lparr>heap := (heap conf)[j := new]\<rparr>) @ [j]\<rparr> = c1"
    by (simp add: c1_def)
  have p: "persistLocked save (\<lambda>c. c\<lparr>jobs := jobs c @ [j]\<rparr>) (conf\<lparr>heap := (heap conf)[j := new]\<rparr>)
      = (case save (job_values conf @ [new]) of
           Some err \<Rightarrow> (c1\<lparr>jobs := origin\<rparr>, Some (ErrSave err))
         | None \<Rightarrow> (c1, None))"
    unfolding persistLocked_def cl by (simp add: c1_def [symmetric] w)
  have a: "addJob save j conf =
     (if blocked then (conf, Some (ErrorsNew ''job already exists''))
      else case save (job_values conf @ [new]) of
           Some err \<Rightarrow> (c1\<lparr>jobs := origin\<rparr>, Some (ErrSave err))
         | None \<Rightarrow> (c1, None))"
    using addJob_unfolded [OF wf fr, of save] al p by (simp add: new_def)
  have "(snd (addJob save j conf) = Some (ErrorsNew ''job already exists'') \<longleftrightarrow> blocked)
       \<and> (snd (addJob save j conf) = Some (ErrorsNew ''job already exists'')
            \<longrightarrow> fst (addJob save j conf) = conf)
       \<and> (snd (addJob save j conf) = None
          \<longleftrightarrow> \<not> blocked \<and> save (job_values conf @ [new]) = None)
       \<and> (snd (addJob save j conf) = None
            \<longrightarrow> job_values (fst (addJob save j conf)) = job_values conf @ [new])"
  proof (cases blocked)
    case True
    with a show ?thesis by simp
  next
    case False
    with a w show ?thesis by (cases "save (job_values conf @ [new])") simp_all
  qed
  then show ?thesis unfolding new_def blocked_def .
qed

theorem addJob_alias_unique_id_incremented_witness:
  "conf_wf ex_conf_repeated \<and> fresh_job 1 ex_conf_repeated
   \<and> map Status (job_values ex_conf_repeated) = [running]
   \<and> map Alias (job_values ex_conf_repeated) = [Alias (heap ex_conf_repeated ! 1)]
   \<and> snd (addJob (\<lambda>_. None) 1 ex_conf_repeated) = Some (ErrorsNew ''job already exists'')
   \<and> fst (addJob (\<lambda>_. None) 1 ex_conf_repeated) = ex_conf_repeated
   \<and> conf_wf ex_conf \<and> fresh_job 2 ex_conf
   \<and> map Alias (job_values ex_conf) = [Alias (heap ex_conf ! 2), ''T2'']
   \<and> map Status (job_values ex_conf) = [finished, running]
   \<and> snd (addJob (\<lambda>_. None) 2 ex_conf) = None
   \<and> map JobID (job_values (fst (addJob (\<lambda>_. None) 2 ex_conf))) = [4, 7, 8]
   \<and> map Status (job_values (fst (addJob (\<lambda>_. None) 2 ex_conf))) = [finished, running, pending]"
proof -
  have wf1: "conf_wf ex_conf_repeated" by (simp add: conf_wf_def ex_conf_repeated_def)
  have fr1: "fresh_job 1 ex_conf_repeated" by (simp add: fresh_job_def ex_conf_repeated_def)
  have v1: "job_values ex_conf_repeated = [ex_job ''T1'' 1 running]"
    by (simp add: job_values_def ex_conf_repeated_def)
  have h1: "Alias (heap ex_conf_repeated ! 1) = ''T1''"
    by (simp add: ex_conf_repeated_def ex_job_def)
  have b1: "\<exists>c\<in>set (job_values ex_conf_repeated). Status c \<noteq> finished \<and> Status c \<noteq> cancelled
             \<and> Alias c = Alias (heap ex_conf_repeated ! 1)"
    unfolding v1 h1 by (simp add: ex_job_def)
  note t1 = addJob_alias_unique_id_incremented [OF wf1 fr1, of "\<lambda>_. None"]
  from t1 b1 have e1: "snd (addJob (\<lambda>_. None) 1 ex_conf_repeated) = Some (ErrorsNew ''job already exists'')"
    by blast
  with t1 have k1: "fst (addJob (\<lambda>_. None) 1 ex_conf_repeated) = ex_conf_repeated" by blast
  have wf: "conf_wf ex_conf" by (simp add: conf_wf_def ex_conf_def)
  have fr: "fresh_job 2 ex_conf" by (simp add: fresh_job_def ex_conf_def)
  have v: "job_values ex_conf = [ex_job ''T1'' 4 finished, ex_job ''T2'' 7 running]"
    by (simp add: job_values_def ex_conf_def)
  have h: "heap ex_conf ! 2 = ex_job ''T1'' 0 running" by (simp add: ex_conf_def)
  have h': "Alias (heap ex_conf ! 2) = ''T1''" by (simp add: ex_conf_def ex_job_def)
  have nb: "\<not> (\<exists>c\<in>set (job_values ex_conf). Status c \<noteq> finished \<and> Status c \<noteq> cancelled
             \<and> Alias c = Alias (heap ex_conf ! 2))"
    unfolding v h' by (simp add: ex_job_def)
  note t2 = addJob_alias_unique_id_incremented [OF wf fr, of "\<lambda>_. None"]
  from t2 nb have s: "snd (addJob (\<lambda>_. None) 2 ex_conf) = None" by blast
  with t2 have "job_values (fst (addJob (\<lambda>_. None) 2 ex_conf)) = job_values ex_conf @
      [(heap ex_conf ! 2)\<lparr>Status := pending,
         JobID := (if job_values ex_conf = [] then 1 else JobID (last (job_values ex_conf)) + 1)\<rparr>]"
    by blast
  then have ids: "map JobID (job_values (fst (addJob (\<lambda>_. None) 2 ex_conf))) = [4, 7, 8]"
    and sts: "map Status (job_values (fst (addJob (\<lambda>_. None) 2 ex_conf))) = [finished, running, pending]"
    by (simp_all add: v h ex_job_def)
  have m1: "map Status (job_values ex_conf_repeated) = [running]"
    "map Alias (job_values ex_conf_repeated) = [Alias (heap ex_conf_repeated ! 1)]"
    unfolding v1 h1 by (simp_all add: ex_job_def)
  have m2: "map Alias (job_values ex_conf) = [Alias (heap ex_conf ! 2), ''T2'']"
    "map Status (job_values ex_conf) = [finished, running]"
    unfolding v h' by (simp_all add: ex_job_def)
  from wf1 fr1 m1 e1 k1 wf fr m2 s ids sts show ?thesis by blast
qed

theorem job_list_update_atomic_witness:
  "conf_wf ex_conf \<and> op_pre (OpDeleteJob 7) ex_conf
   \<and> snd (run_op (\<lambda>_. Some ''etcd unavailable'') 5 (OpDeleteJob 7) ex_conf) = Some (ErrSave ''etcd unavailable'')
   \<and> jobs (fst (run_op (\<lambda>_. Some ''etcd unavailable'') 5 (OpDeleteJob 7) ex_conf)) = [3, 4]
   \<and> job_values (fst (run_op (\<lambda>_. Some ''etcd unavailable'') 5 (OpDeleteJob 7) ex_conf)) = job_values ex_conf"
proof -
  let ?r = "run_op (\<lambda>_. Some ''etcd unavailable'') 5 (OpDeleteJob 7) ex_conf"
  have wf: "conf_wf ex_conf" by (simp add: conf_wf_def ex_conf_def)
  have s: "snd ?r = Some (ErrSave ''etcd unavailable'')"
    by (simp add: deleteJob_def ex_conf_def ex_job_def isComplete_def persistLocked_def cloneLocked_def Let_def)
  have j: "jobs (fst ?r) = [3, 4]"
    by (simp add: deleteJob_def ex_conf_def ex_job_def isComplete_def persistLocked_def cloneLocked_def Let_def upt_rec)
  have r: "?r = (fst ?r, Some (ErrSave ''etcd unavailable''))"
    using s by (metis prod.collapse)
  have a: "job_values (fst ?r) = job_values ex_conf"
    by (rule job_list_update_atomic [OF wf _ r]) simp
  show ?thesis using wf s j a by simp
qed

subsection \<open>The heartbeat stream wrapper\<close>

lemma hb_step_closed:
  "closed s = 1 \<Longrightarrow> hb_step s c = (s, Failed io_EOF)"
  by (cases c) (simp_all add: hb_Send_def hb_Recv_def)

lemma hb_run_closed:
  "closed s = 1 \<Longrightarrow> hb_run s cs = (s, replicate (length cs) (Failed io_EOF))"
  by (induction cs) (simp_all add: hb_step_closed)

lemma hb_step_failure_closes:
  "hb_step s c = (s', r) \<Longrightarrow> is_failure r \<Longrightarrow> closed s' = 1"
  by (cases c)
    (auto simp: hb_Send_def hb_Recv_def Let_def split: if_splits option.splits sum.splits)

lemma hb_step_open:
  assumes "closed s \<noteq> 1"
  shows "hb_step s (CallSend m out) =
      (if heartbeatSendTimeout \<le> send_elapsed out
       then (s\<lparr>stream_sent := stream_sent s @ [m], closed := 1\<rparr>, Failed ErrSendHeartbeatTimeout)
       else case send_err out of
              Some e \<Rightarrow> (s\<lparr>stream_sent := stream_sent s @ [m], closed := 1\<rparr>, Failed (StreamErr e))
            | None \<Rightarrow> (s\<lparr>stream_sent := stream_sent s @ [m]\<rparr>, SendOk))"
    and "hb_step s (CallRecv (Inl e)) =
      (s\<lparr>stream_recvs := stream_recvs s + 1, closed := 1\<rparr>, Failed (StreamErr e))"
    and "hb_step s (CallRecv (Inr q)) = (s\<lparr>stream_recvs := stream_recvs s + 1\<rparr>, RecvOk q)"
  using assms by (simp_all add: hb_Send_def hb_Recv_def Let_def split: option.splits)

text \<open>
  C7: on a wrapper that is not closed, a \<^verbatim>\<open>Send\<close> fails with \<^verbatim>\<open>ErrSendHeartbeatTimeout\<close>
  when the stream's send does not finish within \<^verbatim>\<open>heartbeatSendTimeout\<close> (5 s) and with the
  stream's error when the send returns one in time, and a \<^verbatim>\<open>Recv\<close> fails with the stream's
  error when the stream returns one; a call on which the stream does neither succeeds and
  leaves the flag as it is. Every call that fails sets the \<^verbatim>\<open>closed\<close> flag, and from then on
  every \<^verbatim>\<open>Send\<close> and every \<^verbatim>\<open>Recv\<close> returns \<^verbatim>\<open>io.EOF\<close> without touching the stream: nothing
  more is handed to it and nothing more is read from it.
\<close>

theorem heartbeat_wrapper_fails_fast:
  assumes "hb_step s c = (s', r)"
  shows "(closed s \<noteq> 1 \<longrightarrow>
            (\<forall>m out. c = CallSend m out \<longrightarrow>
                (heartbeatSendTimeout \<le> send_elapsed out \<longrightarrow> r = Failed ErrSendHeartbeatTimeout)
              \<and> (send_elapsed out < heartbeatSendTimeout \<longrightarrow>
                    (\<forall>e. send_err out = Some e \<longrightarrow> r = Failed (StreamErr e))
                  \<and> (send_err out = None \<longrightarrow>
                        r = SendOk \<and> s' = s\<lparr>stream_sent := stream_sent s @ [m]\<rparr>)))
          \<and> (\<forall>e. c = CallRecv (Inl e) \<longrightarrow> r = Failed (StreamErr e))
          \<and> (\<forall>q. c = CallRecv (Inr q) \<longrightarrow>
                  r = RecvOk q \<and> s' = s\<lparr>stream_recvs := stream_recvs s + 1\<rparr>))
       \<and> (closed s = 1 \<longrightarrow> r = Failed io_EOF \<and> s' = s)
       \<and> (is_failure r \<longrightarrow>
             closed s' = 1 \<and> hb_run s' cs = (s', replicate (length cs) (Failed io_EOF)))"
proof (intro conjI impI allI)
  fix m out
  assume op: "closed s \<noteq> 1" and c: "c = CallSend m out"
  have e: "(s', r) =
      (if heartbeatSendTimeout \<le> send_elapsed out
       then (s\<lparr>stream_sent := stream_sent s @ [m], closed := 1\<rparr>, Failed ErrSendHeartbeatTimeout)
       else case send_err out of
              Some e \<Rightarrow> (s\<lparr>stream_sent := stream_sent s @ [m], closed := 1\<rparr>, Failed (StreamErr e))
            | None \<Rightarrow> (s\<lparr>stream_sent := stream_sent s @ [m]\<rparr>, SendOk))"
    using assms [symmetric] c hb_step_open(1) [OF op, of m out] by (simp only:)
  {
    assume "heartbeatSendTimeout \<le> send_elapsed out"
    with e show "r = Failed ErrSendHeartbeatTimeout" by simp
  }
  {
    fix e' assume "send_elapsed out < heartbeatSendTimeout" "send_err out = Some e'"
    with e show "r = Failed (StreamErr e')" by simp
  }
  {
    assume "send_elapsed out < heartbeatSendTimeout" "send_err out = None"
    with e show "r = SendOk" and "s' = s\<lparr>stream_sent := stream_sent s @ [m]\<rparr>" by simp_all
  }
next
  fix e
  assume op: "closed s \<noteq> 1" and c: "c = CallRecv (Inl e)"
  from assms [symmetric] c hb_step_open(2) [OF op, of e]
  have "(s', r) = (s\<lparr>stream_recvs := stream_recvs s + 1, closed := 1\<rparr>, Failed (StreamErr e))"
    by (simp only:)
  then show "r = Failed (StreamErr e)" by simp
next
  fix q
  assume op: "closed s \<noteq> 1" and c: "c = CallRecv (Inr q)"
  from assms [symmetric] c hb_step_open(3) [OF op, of q]
  have "(s', r) = (s\<lparr>stream_recvs := stream_recvs s + 1\<rparr>, RecvOk q)"
    by (simp only:)
  then show "r = RecvOk q" and "s' = s\<lparr>stream_recvs := stream_recvs s + 1\<rparr>" by simp_all
next
  assume "closed s = 1"
  then show "r = Failed io_EOF" and "s' = s" using assms by (simp_all add: hb_step_closed)
next
  assume "is_failure r"
  with assms show cl: "closed s' = 1" by (rule hb_step_failure_closes)
  then show "hb_run s' cs = (s', replicate (length cs) (Failed io_EOF))" by (rule hb_run_closed)
qed

theorem heartbeat_wrapper_fails_fast_witness:
  "closed ex_hb = 0
   \<and> snd (hb_step ex_hb (CallRecv (Inl ''connection reset'' :: string + nat)))
       = Failed (StreamErr ''connection reset'')
   \<and> hb_run (fst (hb_step ex_hb (CallRecv (Inl ''connection reset'' :: string + nat))))
        [CallSend 2 \<lparr>send_elapsed = 1, send_err = None\<rparr>, CallRecv (Inr (7::nat))]
     = (\<lparr>closed = 1, stream_sent = [], stream_recvs = 1\<rparr>,
        [Failed io_EOF, Failed io_EOF :: nat hb_result])
   \<and> snd (hb_step ex_hb (CallSend 1 \<lparr>send_elapsed = 5 * Second, send_err = None\<rparr>
                            :: (nat, nat) hb_call))
       = Failed ErrSendHeartbeatTimeout
   \<and> hb_run (fst (hb_step ex_hb (CallSend 1 \<lparr>send_elapsed = 5 * Second, send_err = None\<rparr>
                                 :: (nat, nat) hb_call)))
        [CallRecv (Inr (7::nat)), CallSend 2 \<lparr>send_elapsed = 1, send_err = None\<rparr>]
     = (\<lparr>closed = 1, stream_sent = [1], stream_recvs = 0\<rparr>,
        [Failed io_EOF, Failed io_EOF :: nat hb_result])"
proof -
  let ?recv = "hb_step ex_hb (CallRecv (Inl ''connection reset'' :: string + nat))"
  let ?send = "hb_step ex_hb (CallSend 1 \<lparr>send_elapsed = 5 * Second, send_err = None\<rparr>
                 :: (nat, nat) hb_call)"
  let ?cs1 = "[CallSend 2 \<lparr>send_elapsed = 1, send_err = None\<rparr>, CallRecv (Inr (7::nat))]
                :: (nat, nat) hb_call list"
  let ?cs2 = "[CallRecv (Inr (7::nat)), CallSend 2 \<lparr>send_elapsed = 1, send_err = None\<rparr>]
                :: (nat, nat) hb_call list"
  have op: "closed ex_hb = 0" "closed ex_hb \<noteq> 1" by (simp_all add: ex_hb_def)
  have to: "heartbeatSendTimeout \<le> send_elapsed \<lparr>send_elapsed = 5 * Second, send_err = None\<rparr>"
    by (simp add: heartbeatSendTimeout_def)
  have s1: "fst ?recv = \<lparr>closed = 1, stream_sent = [], stream_recvs = 1\<rparr>"
    by (simp add: hb_Recv_def ex_hb_def)
  have s2: "fst ?send = \<lparr>closed = 1, stream_sent = [1], stream_recvs = 0\<rparr>"
    by (simp add: hb_Send_def ex_hb_def heartbeatSendTimeout_def)
  have two: "replicate (length ?cs1) (Failed io_EOF :: nat hb_result) = [Failed io_EOF, Failed io_EOF]"
    "replicate (length ?cs2) (Failed io_EOF :: nat hb_result) = [Failed io_EOF, Failed io_EOF]"
    by (simp_all add: numeral_2_eq_2)
  note r = heartbeat_wrapper_fails_fast [of ex_hb _ "fst ?recv" "snd ?recv" ?cs1,
      OF prod.collapse [symmetric]]
  from r op(2) have r1: "snd ?recv = Failed (StreamErr ''connection reset'')" by blast
  with r have "hb_run (fst ?recv) ?cs1 = (fst ?recv, replicate (length ?cs1) (Failed io_EOF))"
    by (metis is_failure.simps(1))
  also have "\<dots> = (\<lparr>closed = 1, stream_sent = [], stream_recvs = 1\<rparr>,
        [Failed io_EOF, Failed io_EOF])"
    by (simp only: s1 two)
  finally have r2: "hb_run (fst ?recv) ?cs1 = (\<lparr>closed = 1, stream_sent = [], stream_recvs = 1\<rparr>,
        [Failed io_EOF, Failed io_EOF])" .
  note w = heartbeat_wrapper_fails_fast [of ex_hb _ "fst ?send" "snd ?send" ?cs2,
      OF prod.collapse [symmetric]]
  from w op(2) to have w1: "snd ?send = Failed ErrSendHeartbeatTimeout" by blast
  with w have "hb_run (fst ?send) ?cs2 = (fst ?send, replicate (length ?cs2) (Failed io_EOF))"
    by (metis is_failure.simps(1))
  also have "\<dots> = (\<lparr>closed = 1, stream_sent = [1], stream_recvs = 0\<rparr>,
        [Failed io_EOF, Failed io_EOF])"
    by (simp only: s2 two)
  finally have w2: "hb_run (fst ?send) ?cs2 = (\<lparr>closed = 1, stream_sent = [1], stream_recvs = 0\<rparr>,
        [Failed io_EOF, Failed io_EOF])" .
  from op(1) r1 r2 w1 w2 show ?thesis by blast
qed

subsection \<open>The region heartbeat loop\<close>





subsection \<open>Validation of the key ranges in BatchScanRegions\<close>

lemma bytes_Compare_sym: "bytes_Compare a b = - bytes_Compare b a"
  by (induction a b rule: bytes_Compare.induct) auto

lemma reversed_iff: "reversed (s, e) \<longleftrightarrow> length e > 0 \<and> bytes_Compare s e > 0"
  using bytes_Compare_sym [of s e] by (auto simp: reversed_def)

lemma check_ranges_valid:
  "ranges_valid prev rs \<Longrightarrow> check_ranges prev rs acc = Inr (acc @ rs)"
  by (induction prev rs acc rule: check_ranges.induct)
     (auto simp: overlaps_prev_def reversed_iff split: option.splits)

lemma check_ranges_first_failure:
  assumes "ranges_valid prev pre"
  shows "check_ranges prev (pre @ r # post) acc =
     (if overlaps_prev (last_end prev pre) r then Inl ''invalid key range, ranges overlapped''
      else if reversed r then Inl ''invalid key range, start key > end key''
      else check_ranges (Some (snd r)) post (acc @ pre @ [r]))"
  using assms
proof (induction pre arbitrary: prev acc)
  case Nil
  then show ?case
    by (cases r) (auto simp: last_end_def overlaps_prev_def reversed_iff split: option.splits)
next
  case (Cons a pre)
  obtain s e where a: "a = (s, e)" by (cases a)
  from Cons.prems have v: "ranges_valid (Some e) pre" and no: "\<not> overlaps_prev prev (s, e)"
    and nr: "\<not> reversed (s, e)" by (simp_all add: a)
  have le: "last_end (Some e) pre = last_end prev ((s, e) # pre)"
    by (simp add: last_end_def)
  from no nr have "check_ranges prev (((s, e) # pre) @ r # post) acc
      = check_ranges (Some e) (pre @ r # post) (acc @ [(s, e)])"
    by (auto simp: overlaps_prev_def reversed_iff split: option.splits)
  then show ?case using Cons.IH [OF v, of "acc @ [(s, e)]"] by (simp add: a le)
qed

lemma ranges_invalid_split:
  "\<not> ranges_valid prev rs \<Longrightarrow>
   \<exists>pre r post. rs = pre @ r # post \<and> ranges_valid prev pre
      \<and> (overlaps_prev (last_end prev pre) r \<or> reversed r)"
proof (induction rs arbitrary: prev)
  case Nil
  then show ?case by simp
next
  case (Cons a rs)
  show ?case
  proof (cases "overlaps_prev prev a \<or> reversed a")
    case True
    then have "a # rs = [] @ a # rs \<and> ranges_valid prev []
        \<and> (overlaps_prev (last_end prev []) a \<or> reversed a)"
      by (simp add: last_end_def)
    then show ?thesis by blast
  next
    case False
    with Cons.prems have "\<not> ranges_valid (Some (snd a)) rs" by simp
    from Cons.IH [OF this] obtain pre r post where
      "rs = pre @ r # post" "ranges_valid (Some (snd a)) pre"
      "overlaps_prev (last_end (Some (snd a)) pre) r \<or> reversed r" by blast
    with False have "a # rs = (a # pre) @ r # post \<and> ranges_valid prev (a # pre)
        \<and> (overlaps_prev (last_end prev (a # pre)) r \<or> reversed r)"
      by (auto simp: last_end_def split: if_splits)
    then show ?thesis by blast
  qed
qed

text \<open>
  C5 (as amended): once the handler reaches the validation, \<^verbatim>\<open>BatchScanRegions\<close> checks the
  ranges in the order of the request, and for each range first whether it starts before
  the end key of the range before it and then whether its non-empty end key is smaller than
  its start key. A request with any such range is answered with an error header of type
  UNKNOWN and nothing is scanned; the message is that of the first check that fails:
  "invalid key range, ranges overlapped" when the first defective range overlaps its
  predecessor, "invalid key range, start key > end key" when it does not and is reversed.
  For valid ranges, the error \<^verbatim>\<open>ErrRegionNotAdjacent\<close> of the scan (the scan's report of an
  incomplete cover under the contain-all option) is answered with
  REGIONS_NOT_CONTAIN_ALL_KEY_RANGE.
\<close>

theorem batch_scan_first_invalid_range_decides:
  assumes g: "reaches_validation env"
  shows "(\<not> ranges_valid None (bsr_Ranges request) \<longrightarrow>
            (\<exists>msg. BatchScanRegions env request
                      = Inr \<lparr>resp_Header = (UNKNOWN, msg), resp_Regions = []\<rparr>
                  \<and> (msg = ''invalid key range, ranges overlapped''
                     \<or> msg = ''invalid key range, start key > end key'')))
       \<and> (\<forall>pre r post. bsr_Ranges request = pre @ r # post \<and> ranges_valid None pre
             \<and> overlaps_prev (last_end None pre) r \<longrightarrow>
            BatchScanRegions env request
              = Inr \<lparr>resp_Header = (UNKNOWN, ''invalid key range, ranges overlapped''),
                     resp_Regions = []\<rparr>)
       \<and> (\<forall>pre r post. bsr_Ranges request = pre @ r # post \<and> ranges_valid None pre
             \<and> \<not> overlaps_prev (last_end None pre) r \<and> reversed r \<longrightarrow>
            BatchScanRegions env request
              = Inr \<lparr>resp_Header = (UNKNOWN, ''invalid key range, start key > end key''),
                     resp_Regions = []\<rparr>)
       \<and> (\<forall>text. ranges_valid None (bsr_Ranges request)
             \<and> rc_BatchScanRegions env (bsr_Ranges request) (sint (bsr_Limit request))
                  (bsr_ContainAllKeyRange request) = Inl (ErrRegionNotAdjacent, text) \<longrightarrow>
            BatchScanRegions env request
              = Inr \<lparr>resp_Header = (REGIONS_NOT_CONTAIN_ALL_KEY_RANGE, text),
                     resp_Regions = []\<rparr>)"
proof -
  have body: "BatchScanRegions env request =
    (case check_ranges None (bsr_Ranges request) [] of
       Inl msg \<Rightarrow> Inr \<lparr>resp_Header = (UNKNOWN, msg), resp_Regions = []\<rparr>
     | Inr keyRanges \<Rightarrow>
        (case rc_BatchScanRegions env keyRanges (sint (bsr_Limit request))
                            (bsr_ContainAllKeyRange request) of
           Inl (first, text) \<Rightarrow>
             if first = ErrRegionNotAdjacent
             then Inr \<lparr>resp_Header = (REGIONS_NOT_CONTAIN_ALL_KEY_RANGE, text), resp_Regions = []\<rparr>
             else Inr \<lparr>resp_Header = (UNKNOWN, text), resp_Regions = []\<rparr>
         | Inr res \<Rightarrow> BatchScanRegions env request))"
    using g
    by (auto simp: reaches_validation_def BatchScanRegions_def wrapErrorToHeader_def
        split: option.splits middleware_result.splits sum.splits if_splits)
  have ov: "BatchScanRegions env request
              = Inr \<lparr>resp_Header = (UNKNOWN, ''invalid key range, ranges overlapped''),
                     resp_Regions = []\<rparr>"
    if "bsr_Ranges request = pre @ r # post" "ranges_valid None pre"
       "overlaps_prev (last_end None pre) r" for pre r post
    using that by (subst body) (simp add: check_ranges_first_failure)
  have rv: "BatchScanRegions env request
              = Inr \<lparr>resp_Header = (UNKNOWN, ''invalid key range, start key > end key''),
                     resp_Regions = []\<rparr>"
    if "bsr_Ranges request = pre @ r # post" "ranges_valid None pre"
       "\<not> overlaps_prev (last_end None pre) r" "reversed r" for pre r post
    using that by (subst body) (simp add: check_ranges_first_failure)
  have inv: "\<exists>msg. BatchScanRegions env request
                      = Inr \<lparr>resp_Header = (UNKNOWN, msg), resp_Regions = []\<rparr>
                  \<and> (msg = ''invalid key range, ranges overlapped''
                     \<or> msg = ''invalid key range, start key > end key'')"
    if "\<not> ranges_valid None (bsr_Ranges request)"
  proof -
    from ranges_invalid_split [OF that] obtain pre r post where
      s: "bsr_Ranges request = pre @ r # post" "ranges_valid None pre"
      and d: "overlaps_prev (last_end None pre) r \<or> reversed r" by blast
    show ?thesis
    proof (cases "overlaps_prev (last_end None pre) r")
      case True
      from ov [OF s True] show ?thesis by blast
    next
      case False
      with d have "reversed r" by simp
      from rv [OF s False this] show ?thesis by blast
    qed
  qed
  have na: "BatchScanRegions env request
              = Inr \<lparr>resp_Header = (REGIONS_NOT_CONTAIN_ALL_KEY_RANGE, etext), resp_Regions = []\<rparr>"
    if "ranges_valid None (bsr_Ranges request)"
       "rc_BatchScanRegions env (bsr_Ranges request) (sint (bsr_Limit request))
                  (bsr_ContainAllKeyRange request) = Inl (ErrRegionNotAdjacent, etext)" for etext
    using that by (subst body) (simp add: check_ranges_valid)
  from inv ov rv na show ?thesis by blast
qed

theorem batch_scan_first_invalid_range_decides_witness:
  "reaches_validation (ex_bsr_env (Inl (ErrRegionNotAdjacent, ''found a hole region in the last'')))
   \<and> BatchScanRegions (ex_bsr_env (Inl (ErrRegionNotAdjacent, ''found a hole region in the last'')))
        (ex_bsr_request [([1], [0])])
      = Inr \<lparr>resp_Header = (UNKNOWN, ''invalid key range, start key > end key''), resp_Regions = []\<rparr>
   \<and> BatchScanRegions (ex_bsr_env (Inl (ErrRegionNotAdjacent, ''found a hole region in the last'')))
        (ex_bsr_request [([0], [2]), ([1], [3])])
      = Inr \<lparr>resp_Header = (UNKNOWN, ''invalid key range, ranges overlapped''), resp_Regions = []\<rparr>
   \<and> BatchScanRegions (ex_bsr_env (Inl (ErrRegionNotAdjacent, ''found a hole region in the last'')))
        (ex_bsr_request [([9], [10, 1])])
      = Inr \<lparr>resp_Header = (REGIONS_NOT_CONTAIN_ALL_KEY_RANGE, ''found a hole region in the last''),
             resp_Regions = []\<rparr>"
proof -
  let ?env = "ex_bsr_env (Inl (ErrRegionNotAdjacent, ''found a hole region in the last''))"
  have g: "reaches_validation ?env"
    by (simp add: reaches_validation_def ex_bsr_env_def)
  note decides = batch_scan_first_invalid_range_decides [OF g]
  have a: "BatchScanRegions ?env (ex_bsr_request [([1], [0])])
      = Inr \<lparr>resp_Header = (UNKNOWN, ''invalid key range, start key > end key''), resp_Regions = []\<rparr>"
  proof -
    have "bsr_Ranges (ex_bsr_request [([1], [0])]) = [] @ ([1], [0]) # [] \<and> ranges_valid None []
        \<and> \<not> overlaps_prev (last_end None []) ([1], [0]) \<and> reversed ([1], [0])"
      by (simp add: ex_bsr_request_def last_end_def overlaps_prev_def reversed_def)
    with decides [of "ex_bsr_request [([1], [0])]"] show ?thesis by blast
  qed
  have b: "BatchScanRegions ?env (ex_bsr_request [([0], [2]), ([1], [3])])
      = Inr \<lparr>resp_Header = (UNKNOWN, ''invalid key range, ranges overlapped''), resp_Regions = []\<rparr>"
  proof -
    have "bsr_Ranges (ex_bsr_request [([0], [2]), ([1], [3])]) = [([0], [2])] @ ([1], [3]) # []
        \<and> ranges_valid None [([0], [2])]
        \<and> overlaps_prev (last_end None [([0], [2])]) ([1], [3])"
      by (simp add: ex_bsr_request_def last_end_def overlaps_prev_def reversed_def)
    with decides [of "ex_bsr_request [([0], [2]), ([1], [3])]"] show ?thesis by blast
  qed
  have c: "BatchScanRegions ?env (ex_bsr_request [([9], [10, 1])])
      = Inr \<lparr>resp_Header = (REGIONS_NOT_CONTAIN_ALL_KEY_RANGE, ''found a hole region in the last''),
             resp_Regions = []\<rparr>"
  proof -
    have "ranges_valid None (bsr_Ranges (ex_bsr_request [([9], [10, 1])]))
       \<and> rc_BatchScanRegions ?env (bsr_Ranges (ex_bsr_request [([9], [10, 1])]))
            (sint (bsr_Limit (ex_bsr_request [([9], [10, 1])])))
            (bsr_ContainAllKeyRange (ex_bsr_request [([9], [10, 1])]))
          = Inl (ErrRegionNotAdjacent, ''found a hole region in the last'')"
      by (simp add: ex_bsr_request_def ex_bsr_env_def overlaps_prev_def reversed_def)
    with decides [of "ex_bsr_request [([9], [10, 1])]"] show ?thesis by blast
  qed
  from g a b c show ?thesis by blast
qed

text \<open>
  C5 as stated fails: a request with a reversed range is answered with "ranges overlapped"
  when that range also starts before the end of its predecessor, and a request with
  overlapping ranges is answered with "start key > end key" when an earlier range is
  reversed.
\<close>

theorem batch_scan_error_of_later_defect_counterexample:
  "reaches_validation (ex_bsr_env (Inr []))
   \<and> reversed ([1], [0])
   \<and> BatchScanRegions (ex_bsr_env (Inr [])) (ex_bsr_request [([0], [2]), ([1], [0])])
      = Inr \<lparr>resp_Header = (UNKNOWN, ''invalid key range, ranges overlapped''), resp_Regions = []\<rparr>
   \<and> bytes_Compare [2] [3] < 0
   \<and> BatchScanRegions (ex_bsr_env (Inr [])) (ex_bsr_request [([5], [3]), ([2], [4])])
      = Inr \<lparr>resp_Header = (UNKNOWN, ''invalid key range, start key > end key''), resp_Regions = []\<rparr>"
  by (simp add: reaches_validation_def ex_bsr_env_def ex_bsr_request_def reversed_def
      BatchScanRegions_def wrapErrorToHeader_def)

subsection \<open>The TSO allocator: periodic update\<close>

lemma int64_id: "- (2 ^ 63) \<le> x \<Longrightarrow> x < 2 ^ 63 \<Longrightarrow> int64 x = x"
  by (simp add: int64_def)

lemma go_div_nonneg: "0 \<le> a \<Longrightarrow> 0 < b \<Longrightarrow> go_div a b = a div b"
  by (simp add: go_div_def)



lemma unixMilli_plain: "0 \<le> t \<Longrightarrow> t < 2 ^ 63 \<Longrightarrow> unixMilli t = t div 1000000"
  by (simp add: unixMilli_def UnixNano_def int64_id go_div_nonneg Millisecond_def)

lemma SubTSO_plain:
  assumes "0 \<le> a" "a < 2 ^ 63" "0 \<le> b" "b < 2 ^ 63"
  shows "SubTSOPhysicalByWallClock a b = a div 1000000 - b div 1000000"
proof -
  have "0 \<le> a div 1000000" "a div 1000000 \<le> a" "0 \<le> b div 1000000" "b div 1000000 \<le> b"
    using assms by (simp_all add: pos_imp_zdiv_nonneg_iff zdiv_mono2 [of a 1 1000000, simplified])
  then show ?thesis using assms
    by (simp add: SubTSOPhysicalByWallClock_def unixMilli_plain int64_id)
qed

lemma ZeroTime_negative: "ZeroTime < 0"
  by (simp add: ZeroTime_def)

lemma ms_after_guard: "(0::int) \<le> p \<Longrightarrow> 1000000 < n - p \<Longrightarrow> p div 1000000 < n div 1000000"
proof -
  assume "0 \<le> p" "1000000 < n - p"
  then have "p + 1000000 \<le> n" by simp
  then have "(p + 1000000) div 1000000 \<le> n div 1000000" by (rule zdiv_mono1) simp
  then show ?thesis by simp
qed

lemma SubReal_unix:
  assumes "unix_nano_range a" "unix_nano_range b"
  shows "SubRealTimeByWallClock a b = a - b"
proof -
  from assms have "UnixNano a = a" "UnixNano b = b"
    by (simp_all add: UnixNano_def int64_id unix_nano_range_def)
  then show ?thesis using assms
    by (simp add: SubRealTimeByWallClock_def int64_id unix_nano_range_def)
qed

lemma SubTSO_unix:
  assumes "unix_nano_range a" "unix_nano_range b"
  shows "SubTSOPhysicalByWallClock a b = a div 1000000 - b div 1000000"
  using assms by (simp add: SubTSO_plain unix_nano_range_def)

lemma setTSOPhysical_moves:
  assumes "unix_nano_range (physical t)" "unix_nano_range next"
    and "physical t div 1000000 < next div 1000000"
  shows "setTSOPhysical next force t = t\<lparr>physical := next, logical := 0\<rparr>"
proof -
  from assms(1) have "physical t \<noteq> ZeroTime"
    using ZeroTime_negative by (simp add: unix_nano_range_def)
  then show ?thesis using assms
    by (simp add: setTSOPhysical_def SubTSO_unix)
qed

lemma saveTimestamp_result:
  "saveTimestamp fault ts t =
     (if lease_held t \<and> fault = None then Inr (t\<lparr>storage_ts := ts\<rparr>)
      else Inl (if \<not> lease_held t then ''etcd transaction failed, lease lost'' else the fault))"
  by (cases fault) (simp_all add: saveTimestamp_def)

lemma advance_to_result:
  assumes p: "unix_nano_range (physical t)" and s: "unix_nano_range (lastSavedTime t)"
    and g: "updateTimestampGuard \<le> saveInterval t"
    and n: "unix_nano_range next"
    and ms: "physical t div 1000000 < next div 1000000"
  shows "advance_to fault next t =
     (if lastSavedTime t - next \<le> updateTimestampGuard
      then (if lease_held t \<and> fault = None
            then (t\<lparr>storage_ts := next + saveInterval t, lastSavedTime := next + saveInterval t,
                     physical := next, logical := 0\<rparr>, None)
            else (t, Some (ErrEtcd (if \<not> lease_held t then ''etcd transaction failed, lease lost''
                                    else the fault))))
      else (t\<lparr>physical := next, logical := 0\<rparr>, None))"
proof -
  have sub: "SubRealTimeByWallClock (getLastSavedTime t) next = lastSavedTime t - next"
    using s n by (simp add: getLastSavedTime_def SubReal_unix)
  have m1: "setTSOPhysical next False t = t\<lparr>physical := next, logical := 0\<rparr>"
    using p n ms by (rule setTSOPhysical_moves)
  let ?t1 = "t\<lparr>storage_ts := next + saveInterval t, lastSavedTime := next + saveInterval t\<rparr>"
  have "unix_nano_range (physical ?t1)" "physical ?t1 div 1000000 < next div 1000000"
    using p ms by simp_all
  from setTSOPhysical_moves [OF this(1) n this(2), of False]
  have m2: "setTSOPhysical next False ?t1
      = t\<lparr>storage_ts := next + saveInterval t, lastSavedTime := next + saveInterval t,
           physical := next, logical := 0\<rparr>"
    by simp
  show ?thesis
    by (simp add: advance_to_def sub saveTimestamp_result Add_def Let_def m1 m2)
qed


text \<open>
  C1 (as amended): take an oracle in service (initialized, with the physical time below
  the last saved time and the save interval not below the guard) and a wall clock, all
  within the range in which \<^verbatim>\<open>UnixNano\<close> is exact. Every call of \<^verbatim>\<open>updateTimestamp\<close> keeps
  the invariants: the last saved time does not decrease, the physical time does not
  decrease, the physical time stays below the last saved time, and the last saved time
  stays the persisted one. The call wants to advance the physical time to \<open>now\<close> when
  \<open>now\<close> is ahead of it by more than the guard, otherwise to the previous physical time
  plus 1 ms when the logical counter is above half of \<open>2^18\<close>, and otherwise it is a no-op.
  It returns an error exactly when it wants to advance, the target is within the guard of
  the last saved time, so that the saved window has to be extended, and the save fails
  (the lease is lost or the storage fails); it then changes nothing. In every other case
  in which it wants to advance it does: the physical time becomes the target, the logical
  counter 0, and the last saved time the target plus the save interval if the window had
  to be extended.
\<close>

theorem updateTimestamp_keeps_invariants:
  assumes ok: "oracle_ok t" and now: "unix_nano_range now"
    and r: "updateTimestamp now fault t = (t', err)"
  shows "lastSavedTime t \<le> lastSavedTime t'
       \<and> physical t \<le> physical t'
       \<and> physical t' < lastSavedTime t'
       \<and> (storage_ts t = lastSavedTime t \<longrightarrow> storage_ts t' = lastSavedTime t')
       \<and> (err \<noteq> None \<longrightarrow> t' = t)
       \<and> (updateTimestampGuard < now - physical t \<longrightarrow>
             (err \<noteq> None \<longleftrightarrow> lastSavedTime t - now \<le> updateTimestampGuard
                                \<and> (\<not> lease_held t \<or> fault \<noteq> None))
           \<and> (err = None \<longrightarrow> physical t' = now \<and> logical t' = 0
                  \<and> lastSavedTime t' = (if lastSavedTime t - now \<le> updateTimestampGuard
                                         then now + saveInterval t else lastSavedTime t)))
       \<and> (\<not> updateTimestampGuard < now - physical t \<and> 2 ^ 17 < logical t \<longrightarrow>
             (err \<noteq> None \<longleftrightarrow> lastSavedTime t - (physical t + Millisecond) \<le> updateTimestampGuard
                                \<and> (\<not> lease_held t \<or> fault \<noteq> None))
           \<and> (err = None \<longrightarrow> physical t' = physical t + Millisecond \<and> logical t' = 0
                  \<and> lastSavedTime t'
                      = (if lastSavedTime t - (physical t + Millisecond) \<le> updateTimestampGuard
                         then physical t + Millisecond + saveInterval t else lastSavedTime t)))
       \<and> (\<not> updateTimestampGuard < now - physical t \<and> \<not> 2 ^ 17 < logical t
            \<longrightarrow> t' = t \<and> err = None)"
proof -
  from ok have p: "unix_nano_range (physical t)" and s: "unix_nano_range (lastSavedTime t)"
    and p1: "unix_nano_range (physical t + Millisecond)"
    and lt: "physical t < lastSavedTime t" and g: "updateTimestampGuard \<le> saveInterval t"
    by (simp_all add: oracle_ok_def Add_def)
  from p have init: "isInitialized t"
    using ZeroTime_negative by (simp add: isInitialized_def unix_nano_range_def)
  then have tso: "getTSO t = (physical t, logical t)"
    by (simp add: getTSO_def isInitialized_def)
  have jet: "SubRealTimeByWallClock now (physical t) = now - physical t"
    using now p by (rule SubReal_unix)
  have half: "go_div maxLogical 2 = 2 ^ 17"
    by (simp add: go_div_def maxLogical_def)
  have gd: "updateTimestampGuard = 1000000" "Millisecond = 1000000"
    by (simp_all add: updateTimestampGuard_def Millisecond_def)
  consider (sync) "updateTimestampGuard < now - physical t"
    | (bump) "\<not> updateTimestampGuard < now - physical t" "2 ^ 17 < logical t"
    | (skip) "\<not> updateTimestampGuard < now - physical t" "\<not> 2 ^ 17 < logical t"
    by blast
  then show ?thesis
  proof cases
    case sync
    from sync p have n0: "physical t < now" and ms: "physical t div 1000000 < now div 1000000"
      using ms_after_guard [of "physical t" now]
      by (simp_all add: gd unix_nano_range_def)
    from r init tso jet sync have "advance_to fault now t = (t', err)"
      by (simp add: updateTimestamp_def)
    with advance_to_result [OF p s g now ms, of fault]
    have e: "(t', err) =
     (if lastSavedTime t - now \<le> updateTimestampGuard
      then (if lease_held t \<and> fault = None
            then (t\<lparr>storage_ts := now + saveInterval t, lastSavedTime := now + saveInterval t,
                     physical := now, logical := 0\<rparr>, None)
            else (t, Some (ErrEtcd (if \<not> lease_held t then ''etcd transaction failed, lease lost''
                                    else the fault))))
      else (t\<lparr>physical := now, logical := 0\<rparr>, None))"
      by simp
    show ?thesis
    proof (cases "lastSavedTime t - now \<le> updateTimestampGuard")
      case False
      with e have "t' = t\<lparr>physical := now, logical := 0\<rparr>" "err = None" by simp_all
      with False sync n0 show ?thesis by (simp add: gd)
    next
      case True
      show ?thesis
      proof (cases "lease_held t \<and> fault = None")
        case True
        with e \<open>lastSavedTime t - now \<le> updateTimestampGuard\<close>
        have "t' = t\<lparr>storage_ts := now + saveInterval t, lastSavedTime := now + saveInterval t,
                     physical := now, logical := 0\<rparr>" "err = None" by simp_all
        with True \<open>lastSavedTime t - now \<le> updateTimestampGuard\<close> sync n0 g show ?thesis
          by (simp add: gd)
      next
        case False
        with e \<open>lastSavedTime t - now \<le> updateTimestampGuard\<close>
        have "t' = t" "err \<noteq> None" by auto
        with False \<open>lastSavedTime t - now \<le> updateTimestampGuard\<close> sync lt show ?thesis
          by auto
      qed
    qed
  next
    case bump
    let ?n = "physical t + Millisecond"
    have n0: "physical t < ?n" and ms: "physical t div 1000000 < ?n div 1000000"
      by (simp_all add: gd)
    from r init tso jet bump half have "advance_to fault ?n t = (t', err)"
      by (simp add: updateTimestamp_def Add_def)
    with advance_to_result [OF p s g p1 ms, of fault]
    have e: "(t', err) =
     (if lastSavedTime t - ?n \<le> updateTimestampGuard
      then (if lease_held t \<and> fault = None
            then (t\<lparr>storage_ts := ?n + saveInterval t, lastSavedTime := ?n + saveInterval t,
                     physical := ?n, logical := 0\<rparr>, None)
            else (t, Some (ErrEtcd (if \<not> lease_held t then ''etcd transaction failed, lease lost''
                                    else the fault))))
      else (t\<lparr>physical := ?n, logical := 0\<rparr>, None))"
      by simp
    show ?thesis
    proof (cases "lastSavedTime t - ?n \<le> updateTimestampGuard")
      case False
      with e have "t' = t\<lparr>physical := ?n, logical := 0\<rparr>" "err = None" by simp_all
      with False bump show ?thesis by (simp add: gd)
    next
      case True
      show ?thesis
      proof (cases "lease_held t \<and> fault = None")
        case True
        with e \<open>lastSavedTime t - ?n \<le> updateTimestampGuard\<close>
        have "t' = t\<lparr>storage_ts := ?n + saveInterval t, lastSavedTime := ?n + saveInterval t,
                     physical := ?n, logical := 0\<rparr>" "err = None" by simp_all
        with True \<open>lastSavedTime t - ?n \<le> updateTimestampGuard\<close> bump g show ?thesis
          by (simp add: gd)
      next
        case False
        with e \<open>lastSavedTime t - ?n \<le> updateTimestampGuard\<close>
        have "t' = t" "err \<noteq> None" by auto
        with False \<open>lastSavedTime t - ?n \<le> updateTimestampGuard\<close> bump lt show ?thesis
          by auto
      qed
    qed
  next
    case skip
    with r init tso jet half have "t' = t" "err = None"
      by (simp_all add: updateTimestamp_def)
    with skip lt show ?thesis by simp
  qed
qed


lemmas tso_eval =
  isInitialized_def getTSO_def getLastSavedTime_def SubRealTimeByWallClock_def
  SubTSOPhysicalByWallClock_def unixMilli_def UnixNano_def int64_def go_div_def Add_def
  advance_to_def saveTimestamp_def LoadTimestamp_def setTSOPhysical_def generateTSO_def
  ZeroTime_def updateTimestampGuard_def maxLogical_def
  Millisecond_def Second_def Minute_def Hour_def ex_oracle_def

theorem updateTimestamp_keeps_invariants_witness:
  "oracle_ok (ex_oracle 10000000 0 12000000) \<and> unix_nano_range 20000000
   \<and> updateTimestampGuard < 20000000 - physical (ex_oracle 10000000 0 12000000)
   \<and> lastSavedTime (ex_oracle 10000000 0 12000000) - 20000000 \<le> updateTimestampGuard
   \<and> updateTimestamp 20000000 None (ex_oracle 10000000 0 12000000)
      = (ex_oracle 20000000 0 3020000000, None)
   \<and> lastSavedTime (ex_oracle 10000000 0 12000000) \<le> lastSavedTime (ex_oracle 20000000 0 3020000000)
   \<and> physical (ex_oracle 20000000 0 3020000000) < lastSavedTime (ex_oracle 20000000 0 3020000000)
   \<and> snd (updateTimestamp 20000000 (Some ''etcd unavailable'') (ex_oracle 10000000 0 12000000))
        \<noteq> None
   \<and> fst (updateTimestamp 20000000 (Some ''etcd unavailable'') (ex_oracle 10000000 0 12000000))
        = ex_oracle 10000000 0 12000000"
proof -
  let ?t = "ex_oracle 10000000 0 12000000"
  let ?f = "updateTimestamp 20000000 (Some ''etcd unavailable'') ?t"
  have ok: "oracle_ok ?t"
    by (simp add: oracle_ok_def unix_nano_range_def tso_eval)
  have now: "unix_nano_range 20000000" by (simp add: unix_nano_range_def)
  have ahead: "updateTimestampGuard < 20000000 - physical ?t"
    and edge: "lastSavedTime ?t - 20000000 \<le> updateTimestampGuard"
    by (simp_all add: tso_eval)
  have r: "updateTimestamp 20000000 None ?t = (ex_oracle 20000000 0 3020000000, None)"
    by (simp add: updateTimestamp_def tso_eval)
  from updateTimestamp_keeps_invariants [OF ok now r]
  have a: "lastSavedTime ?t \<le> lastSavedTime (ex_oracle 20000000 0 3020000000)"
    and b: "physical (ex_oracle 20000000 0 3020000000) < lastSavedTime (ex_oracle 20000000 0 3020000000)"
    by blast+
  note w = updateTimestamp_keeps_invariants [OF ok now prod.collapse [symmetric],
      of "Some ''etcd unavailable''"]
  from w ahead edge have c: "snd ?f \<noteq> None" by blast
  with w have d: "fst ?f = ?t" by blast
  from ok now ahead edge r a b c d show ?thesis by blast
qed

text \<open>
  C1 as stated fails in five ways. When the save fails, the physical time is not advanced
  although the wall clock is ahead by more than the guard. With a save interval of 0 the
  last saved time decreases and the physical time reaches it. An oracle whose physical
  time is not below the last saved time stays so. At the end of the range of \<^verbatim>\<open>UnixNano\<close>
  (the year 2262) and before its start (1970) the physical time is not advanced by 1 ms
  although the logical counter is above half of \<open>2^18\<close> and the call returns no error.
\<close>

theorem updateTimestamp_as_stated_counterexample:
  "updateTimestampGuard < 20000000 - physical (ex_oracle 10000000 0 12000000)
   \<and> updateTimestamp 20000000 (Some ''etcd unavailable'') (ex_oracle 10000000 0 12000000)
      = (ex_oracle 10000000 0 12000000, Some (ErrEtcd ''etcd unavailable''))
   \<and> physical (ex_oracle 10000000 0 12000000) \<noteq> 20000000
   \<and> updateTimestamp 11500000 None ((ex_oracle 10000000 0 12000000)\<lparr>saveInterval := 0\<rparr>)
      = ((ex_oracle 11500000 0 11500000)\<lparr>saveInterval := 0\<rparr>, None)
   \<and> lastSavedTime ((ex_oracle 11500000 0 11500000)\<lparr>saveInterval := 0\<rparr>)
        < lastSavedTime ((ex_oracle 10000000 0 12000000)\<lparr>saveInterval := 0\<rparr>)
   \<and> \<not> physical ((ex_oracle 11500000 0 11500000)\<lparr>saveInterval := 0\<rparr>)
          < lastSavedTime ((ex_oracle 11500000 0 11500000)\<lparr>saveInterval := 0\<rparr>)
   \<and> isInitialized (ex_oracle 12000000 0 12000000)
   \<and> updateTimestamp 12000000 None (ex_oracle 12000000 0 12000000)
      = (ex_oracle 12000000 0 12000000, None)
   \<and> \<not> physical (ex_oracle 12000000 0 12000000) < lastSavedTime (ex_oracle 12000000 0 12000000)
   \<and> 2 ^ 17 < logical (ex_oracle 9223372036854000000 131073 9223372039854000000)
   \<and> updateTimestamp 9223372036854000000 None
        (ex_oracle 9223372036854000000 131073 9223372039854000000)
      = (ex_oracle 9223372036854000000 131073 9223372039854000000, None)
   \<and> isInitialized (ex_oracle (- 500000) 131073 3000000000)
   \<and> updateTimestamp (- 500000) None (ex_oracle (- 500000) 131073 3000000000)
      = (ex_oracle (- 500000) 131073 3000000000, None)"
  by (simp add: updateTimestamp_def tso_eval)

subsection \<open>The TSO allocator: synchronization after election\<close>









subsection \<open>The TSO allocator: reset by the user\<close>

lemma uint_logical_bound: "uint ((ts :: 64 word) AND (2 ^ 18 - 1)) < 2 ^ 18"
proof -
  have "ts AND (2 ^ 18 - 1) \<le> 2 ^ 18 - 1" by (rule word_and_le1)
  then have "uint (ts AND (2 ^ 18 - 1)) \<le> uint (2 ^ 18 - 1 :: 64 word)"
    by (simp add: word_le_def)
  then show ?thesis by simp
qed

lemma int64_small_diff:
  "0 \<le> u \<Longrightarrow> u < 2 ^ 18 \<Longrightarrow> 0 \<le> l \<Longrightarrow> l < 2 ^ 63 \<Longrightarrow>
   int64 u = u \<and> int64 (int64 u - l) = u - l"
  by (simp add: int64_id)

lemma logicalDifference_plain:
  assumes "0 \<le> l" "l < 2 ^ 63"
  shows "int64 (uint ((ts :: 64 word) AND (2 ^ 18 - 1))) = uint (ts AND (2 ^ 18 - 1))
    \<and> int64 (int64 (uint ((ts :: 64 word) AND (2 ^ 18 - 1))) - l) = uint (ts AND (2 ^ 18 - 1)) - l"
proof -
  have n: "0 \<le> uint (ts AND (2 ^ 18 - 1))" by simp
  show ?thesis by (rule int64_small_diff [OF n uint_logical_bound assms])
qed

text \<open>
  C3 (as amended): take an oracle whose times, if its TSO is initialized, lie in the range
  in which \<^verbatim>\<open>UnixNano\<close> is exact and whose logical counter is not negative, and a timestamp
  whose physical part lies in that range (below \<open>2^63\<close> ns). \<^verbatim>\<open>resetUserTimestamp\<close>
  rejects, leaving the oracle as it is, any call when the member is not serving and any
  call on an uninitialized TSO (both with an error). On an initialized oracle it compares
  the given timestamp with the TSO in memory, the physical parts in milliseconds: a
  smaller physical part is rejected with "the specified ts is smaller than now", and an
  equal physical part with a logical part that is not greater with "the specified counter
  is smaller than now" \<^emph>\<open>unless\<close> \<^verbatim>\<open>ignoreSmaller\<close> is set, in which case the call returns no
  error and does nothing. A timestamp that is ahead is rejected with an error when its
  physical part is ahead by \<^verbatim>\<open>maxResetTSGap\<close> or more, unless \<^verbatim>\<open>skipUpperBoundCheck\<close> is set.
  Otherwise the TSO in memory is set to the given timestamp, so it only moves forward;
  \<open>nextPhysical + saveInterval\<close> is persisted first exactly when \<open>lastSavedTime -
  nextPhysical \<le> guard\<close>, and if that save fails the error is returned and nothing changes.
\<close>

theorem resetUserTimestamp_cases:
  assumes ok: "reset_ok t"
    and np: "unix_nano_range (fst (ParseTS tso))"
    and r: "resetUserTimestamp save_fault tso ignoreSmaller skipUpperBoundCheck t = (t', err)"
  shows "(\<not> IsServing t \<longrightarrow> t' = t \<and> err = Some (ErrResetUserTimestamp NotLeaderErr))
    \<and> (IsServing t \<and> physical t = ZeroTime \<longrightarrow> t' = t
         \<and> err = Some (ErrResetUserTimestamp ''timestamp in memory has not been initialized''))
    \<and> (IsServing t \<and> physical t \<noteq> ZeroTime
         \<and> fst (ParseTS tso) div 1000000 < physical t div 1000000 \<longrightarrow> t' = t
         \<and> err = (if ignoreSmaller then None
                  else Some (ErrResetUserTimestamp ''the specified ts is smaller than now'')))
    \<and> (IsServing t \<and> physical t \<noteq> ZeroTime
         \<and> fst (ParseTS tso) div 1000000 = physical t div 1000000
         \<and> uint (snd (ParseTS tso)) \<le> logical t \<longrightarrow> t' = t
         \<and> err = (if ignoreSmaller then None
                  else Some (ErrResetUserTimestamp ''the specified counter is smaller than now'')))
    \<and> (IsServing t \<and> physical t \<noteq> ZeroTime
         \<and> (physical t div 1000000 < fst (ParseTS tso) div 1000000
              \<or> fst (ParseTS tso) div 1000000 = physical t div 1000000
                 \<and> logical t < uint (snd (ParseTS tso)))
        \<longrightarrow>
         (\<not> skipUpperBoundCheck
            \<and> go_div (maxResetTSGap t) Millisecond
                \<le> fst (ParseTS tso) div 1000000 - physical t div 1000000
          \<longrightarrow> t' = t
              \<and> err = Some (ErrResetUserTimestamp ''the specified ts is too larger than now''))
       \<and> (skipUpperBoundCheck
            \<or> fst (ParseTS tso) div 1000000 - physical t div 1000000
                < go_div (maxResetTSGap t) Millisecond
          \<longrightarrow>
           (if lastSavedTime t - fst (ParseTS tso) \<le> updateTimestampGuard
            then (if lease_held t \<and> save_fault = None
                  then err = None
                     \<and> t' = t\<lparr>storage_ts := fst (ParseTS tso) + saveInterval t,
                              lastSavedTime := fst (ParseTS tso) + saveInterval t,
                              physical := fst (ParseTS tso),
                              logical := uint (snd (ParseTS tso))\<rparr>
                  else t' = t \<and> err \<noteq> None)
            else err = None
               \<and> t' = t\<lparr>physical := fst (ParseTS tso),
                         logical := uint (snd (ParseTS tso))\<rparr>)))"
proof (cases "IsServing t")
  case False
  with r show ?thesis by (simp add: resetUserTimestamp_def)
next
  case serving: True
  let ?P = "fst (ParseTS tso)"
  let ?L = "uint (snd (ParseTS tso))"
  have parts: "ParseTS tso = (?P, snd (ParseTS tso))" by simp
  have sndP: "snd (ParseTS tso) = tso AND (2 ^ 18 - 1)" by (simp add: ParseTS_def)
  from ok have lg1: "0 \<le> logical t" and lg2: "logical t < 2 ^ 63"
    by (simp_all add: reset_ok_def)
  have L: "int64 ?L = ?L"
    unfolding sndP by (rule logicalDifference_plain [OF lg1 lg2, THEN conjunct1])
  have LD: "int64 (int64 ?L - logical t) = ?L - logical t"
    unfolding sndP by (rule logicalDifference_plain [OF lg1 lg2, THEN conjunct2])
  have LD2: "int64 (?L - logical t) = ?L - logical t"
    using LD by (simp only: L)
  show ?thesis
  proof (cases "physical t = ZeroTime")
    case True
    with r serving show ?thesis
      by (simp add: resetUserTimestamp_def Let_def split: prod.splits)
  next
    case init: False
    with ok have w: "unix_nano_range (physical t)" and ls: "unix_nano_range (lastSavedTime t)"
      by (simp_all add: reset_ok_def)
    have PD: "SubTSOPhysicalByWallClock ?P (physical t) = ?P div 1000000 - physical t div 1000000"
      using np w by (rule SubTSO_unix)
    have SV: "SubRealTimeByWallClock (getLastSavedTime t) ?P \<le> updateTimestampGuard
        \<longleftrightarrow> lastSavedTime t - ?P \<le> updateTimestampGuard"
      using SubReal_unix [OF ls np] by (simp add: getLastSavedTime_def)
    have save_ok: "lease_held t \<and> save_fault = None \<Longrightarrow>
        saveTimestamp save_fault (Add ?P (saveInterval t)) t
          = Inr (t\<lparr>storage_ts := ?P + saveInterval t\<rparr>)"
      by (simp add: saveTimestamp_def Add_def)
    have save_bad: "\<not> (lease_held t \<and> save_fault = None) \<Longrightarrow>
        \<exists>e. saveTimestamp save_fault (Add ?P (saveInterval t)) t = Inl e"
      by (cases save_fault) (auto simp: saveTimestamp_def)
    note unf = resetUserTimestamp_def split_def Let_def PD LD2 L SV
    consider (smaller) "?P div 1000000 < physical t div 1000000"
      | (counter) "?P div 1000000 = physical t div 1000000" "?L \<le> logical t"
      | (forward) "physical t div 1000000 < ?P div 1000000
              \<or> ?P div 1000000 = physical t div 1000000 \<and> logical t < ?L"
      by linarith
    then show ?thesis
    proof cases
      case smaller
      with r serving init have "t' = t" and "err = (if ignoreSmaller then None
          else Some (ErrResetUserTimestamp ''the specified ts is smaller than now''))"
        by (auto simp: unf split: if_splits)
      with smaller serving init show ?thesis by auto
    next
      case counter
      with r serving init have "t' = t" and "err = (if ignoreSmaller then None
          else Some (ErrResetUserTimestamp ''the specified counter is smaller than now''))"
        by (auto simp: unf split: if_splits)
      with counter serving init show ?thesis by auto
    next
      case forward
      then have f1: "\<not> ?P div 1000000 - physical t div 1000000 < 0"
        and f2: "\<not> (?P div 1000000 - physical t div 1000000 = 0 \<and> ?L - logical t \<le> 0)"
        by auto
      show ?thesis
      proof (cases "\<not> skipUpperBoundCheck
                \<and> ?P div 1000000 - physical t div 1000000 \<ge> go_div (maxResetTSGap t) Millisecond")
        case True
        with r serving init f1 f2 have "t' = t"
          and "err = Some (ErrResetUserTimestamp ''the specified ts is too larger than now'')"
          by (auto simp: unf split: if_splits)
        with True serving init forward show ?thesis by auto
      next
        case gap: False
        show ?thesis
        proof (cases "lastSavedTime t - ?P \<le> updateTimestampGuard")
          case False
          with r serving init f1 f2 gap
          have "t' = t\<lparr>physical := ?P, logical := ?L\<rparr>" and "err = None"
            by (auto simp: unf split: if_splits)
          with False gap serving init forward show ?thesis by auto
        next
          case True
          show ?thesis
          proof (cases "lease_held t \<and> save_fault = None")
            case ok: True
            from r serving init f1 f2 gap True save_ok [OF ok]
            have "t' = t\<lparr>storage_ts := ?P + saveInterval t,
                              lastSavedTime := ?P + saveInterval t,
                              physical := ?P, logical := ?L\<rparr>" and "err = None"
              by (auto simp: unf Add_def split: if_splits)
            with ok True gap serving init forward show ?thesis by auto
          next
            case bad: False
            from save_bad [OF bad] obtain e where
              "saveTimestamp save_fault (Add ?P (saveInterval t)) t = Inl e" ..
            with r serving init f1 f2 gap True
            have "t' = t" and "err \<noteq> None" by (auto simp: unf split: if_splits)
            with bad True gap serving init forward show ?thesis by auto
          qed
        qed
      qed
    qed
  qed
qed

theorem resetUserTimestamp_cases_witness:
  "reset_ok (ex_oracle 10000000 3 3010000000)
   \<and> unix_nano_range (fst (ParseTS 789053440))
   \<and> IsServing (ex_oracle 10000000 3 3010000000)
   \<and> physical (ex_oracle 10000000 3 3010000000) div 1000000 < fst (ParseTS 789053440) div 1000000
   \<and> lastSavedTime (ex_oracle 10000000 3 3010000000) - fst (ParseTS 789053440) \<le> updateTimestampGuard
   \<and> resetUserTimestamp None 789053440 False False (ex_oracle 10000000 3 3010000000)
      = (ex_oracle 3010000000 0 6010000000, None)
   \<and> ex_oracle 3010000000 0 6010000000
      = (ex_oracle 10000000 3 3010000000)
          \<lparr>storage_ts := fst (ParseTS 789053440) + saveInterval (ex_oracle 10000000 3 3010000000),
           lastSavedTime := fst (ParseTS 789053440) + saveInterval (ex_oracle 10000000 3 3010000000),
           physical := fst (ParseTS 789053440),
           logical := uint (snd (ParseTS 789053440))\<rparr>
   \<and> unix_nano_range (fst (ParseTS 22649244221440))
   \<and> go_div (maxResetTSGap (ex_oracle 10000000 3 3010000000)) Millisecond
        \<le> fst (ParseTS 22649244221440) div 1000000
            - physical (ex_oracle 10000000 3 3010000000) div 1000000
   \<and> resetUserTimestamp None 22649244221440 False False (ex_oracle 10000000 3 3010000000)
      = (ex_oracle 10000000 3 3010000000,
         Some (ErrResetUserTimestamp ''the specified ts is too larger than now''))"
proof -
  let ?t = "ex_oracle 10000000 3 3010000000"
  let ?far = "resetUserTimestamp None 22649244221440 False False ?t"
  have P: "ParseTS 789053440 = (3010000000, 0)" by (simp add: ParseTS_def Millisecond_def)
  have Q: "ParseTS 22649244221440 = (86400010000000, 0)" by (simp add: ParseTS_def Millisecond_def)
  have ok: "reset_ok ?t"
    by (simp add: reset_ok_def unix_nano_range_def ex_oracle_def)
  have np: "unix_nano_range (fst (ParseTS 789053440))" by (simp add: P unix_nano_range_def)
  have nq: "unix_nano_range (fst (ParseTS 22649244221440))" by (simp add: Q unix_nano_range_def)
  have sv: "IsServing ?t" by (simp add: ex_oracle_def)
  have fw: "physical ?t div 1000000 < fst (ParseTS 789053440) div 1000000"
    by (simp add: P ex_oracle_def)
  have fq: "physical ?t div 1000000 < fst (ParseTS 22649244221440) div 1000000"
    by (simp add: Q ex_oracle_def)
  have nz: "physical ?t \<noteq> ZeroTime" by (simp add: ex_oracle_def ZeroTime_def)
  have gp: "fst (ParseTS 789053440) div 1000000 - physical ?t div 1000000
      < go_div (maxResetTSGap ?t) Millisecond"
    by (simp add: P tso_eval)
  have gq: "go_div (maxResetTSGap ?t) Millisecond
      \<le> fst (ParseTS 22649244221440) div 1000000 - physical ?t div 1000000"
    by (simp add: Q tso_eval)
  have sw: "lastSavedTime ?t - fst (ParseTS 789053440) \<le> updateTimestampGuard"
    by (simp add: P tso_eval)
  have lh: "lease_held ?t" by (simp add: ex_oracle_def)
  have r: "resetUserTimestamp None 789053440 False False ?t = (ex_oracle 3010000000 0 6010000000, None)"
    by (simp add: resetUserTimestamp_def P NotLeaderErr_def tso_eval)
  from resetUserTimestamp_cases [OF ok np r] sv nz fw gp sw lh
  have a: "ex_oracle 3010000000 0 6010000000
      = ?t\<lparr>storage_ts := fst (ParseTS 789053440) + saveInterval ?t,
           lastSavedTime := fst (ParseTS 789053440) + saveInterval ?t,
           physical := fst (ParseTS 789053440),
           logical := uint (snd (ParseTS 789053440))\<rparr>"
    by presburger
  from resetUserTimestamp_cases [OF ok nq prod.collapse [symmetric], of None False False]
    sv nz fq gq
  have "fst ?far = ?t
      \<and> snd ?far = Some (ErrResetUserTimestamp ''the specified ts is too larger than now'')"
    by presburger
  then have b: "?far = (?t, Some (ErrResetUserTimestamp ''the specified ts is too larger than now''))"
    by (metis prod.collapse)
  from ok np sv fw sw r a nq gq b show ?thesis by blast
qed

text \<open>
  C3 as stated fails with \<^verbatim>\<open>ignoreSmaller\<close>: a timestamp with a smaller physical part, and
  one with the same physical part and a logical part that is not greater, are not
  answered with an error; the call returns nil and leaves the oracle unchanged. It also
  fails beyond the range of \<^verbatim>\<open>UnixNano\<close>. With the TSO in memory at 10 ms, a gap of 24
  hours and the upper bound checked, the timestamp with the physical part 18446744073721
  ms is accepted, because its nanosecond count wraps around to 11 ms. On the oracle that
  this leaves, the timestamp with the physical part 12 ms is accepted although it is
  behind the TSO in memory, which so moves back. And with a last saved time beyond the
  range, a new HWM is persisted although the last saved time is far ahead of the
  timestamp, and the last saved time decreases.
\<close>

theorem resetUserTimestamp_as_stated_counterexample:
  "IsServing (ex_oracle 10000000 3 3010000000)
   \<and> physical (ex_oracle 10000000 3 3010000000) \<noteq> ZeroTime
   \<and> fst (ParseTS 1310720) div 1000000 < physical (ex_oracle 10000000 3 3010000000) div 1000000
   \<and> resetUserTimestamp None 1310720 True False (ex_oracle 10000000 3 3010000000)
      = (ex_oracle 10000000 3 3010000000, None)
   \<and> ParseTS 2621443 = (physical (ex_oracle 10000000 3 3010000000), 3)
   \<and> uint (3 :: 64 word) \<le> logical (ex_oracle 10000000 3 3010000000)
   \<and> resetUserTimestamp None 2621443 True False (ex_oracle 10000000 3 3010000000)
      = (ex_oracle 10000000 3 3010000000, None)
   \<and> ParseTS 4835703278461517824 = (18446744073721 * Millisecond, 0)
   \<and> go_div (maxResetTSGap (ex_oracle 10000000 3 3010000000)) Millisecond
        \<le> (18446744073721 * Millisecond) div 1000000
            - physical (ex_oracle 10000000 3 3010000000) div 1000000
   \<and> resetUserTimestamp None 4835703278461517824 False False (ex_oracle 10000000 3 3010000000)
      = (ex_oracle (18446744073721 * Millisecond) 0 3010000000, None)
   \<and> ParseTS 3145728 = (12 * Millisecond, 0)
   \<and> 12 * Millisecond < physical (ex_oracle (18446744073721 * Millisecond) 0 3010000000)
   \<and> resetUserTimestamp None 3145728 False False
        (ex_oracle (18446744073721 * Millisecond) 0 3010000000)
      = (ex_oracle (12 * Millisecond) 0 3010000000, None)
   \<and> ParseTS 5242880 = (20 * Millisecond, 0)
   \<and> \<not> lastSavedTime (ex_oracle 10000000 3 9223372046854775808) - 20 * Millisecond
          \<le> updateTimestampGuard
   \<and> resetUserTimestamp None 5242880 False False (ex_oracle 10000000 3 9223372046854775808)
      = (ex_oracle (20 * Millisecond) 0 (20 * Millisecond + 3 * Second), None)
   \<and> 20 * Millisecond + 3 * Second < lastSavedTime (ex_oracle 10000000 3 9223372046854775808)"
  by (simp add: resetUserTimestamp_def ParseTS_def tso_eval)

subsection \<open>The TSO allocator: generating timestamps\<close>













subsection \<open>The balance-range scheduler: building an operator\<close>

lemma set_move_left: "set (move_left k x ys) = insert x (set ys)"
  by (induction ys) auto

lemma sorted_move_left:
  "sorted_wrt (\<lambda>a b. k a \<le> k b) ys \<Longrightarrow> sorted_wrt (\<lambda>a b. k a \<le> k b) (move_left k x ys)"
  by (induction ys) (auto simp: set_move_left)

lemma sorted_insertion_loop:
  "sorted_wrt (\<lambda>a b. k a \<le> k b) acc \<Longrightarrow>
   sorted_wrt (\<lambda>a b. k a \<le> k b) (foldl (\<lambda>sorted x. move_left k x sorted) acc xs)"
  by (induction xs arbitrary: acc) (simp_all add: sorted_move_left)

lemma sorted_insertionSort_desc: "sorted_wrt (\<lambda>a b. k a \<ge> k b) (insertionSort_desc k xs)"
  using sorted_insertion_loop [of k "[]" xs]
  by (simp add: insertionSort_desc_def sorted_wrt_rev)

lemma sorted_sort_Slice_desc:
  "pdqsort_sorts env \<Longrightarrow> sorted_wrt (\<lambda>a b. k a \<ge> k b) (sort_Slice_desc (pdqsort env) k xs)"
  by (simp add: sort_Slice_desc_def sorted_insertionSort_desc pdqsort_sorts_def)

lemma select_region_source:
  "select_region env (p\<lparr>source := a, sourceScore := b\<rparr>) x = select_region env p x"
  by (cases "Rule (job p)") (simp_all add: select_region_def)

lemma select_region_carried:
  "select_region env (p\<lparr>region := select_region env p y\<rparr>) x = select_region env p x"
  by (cases "Rule (job p)") (simp_all add: select_region_def)

lemma shouldBalance_iff:
  assumes "source p = Some src" "target p = Some tgt" "targetScore p = score p (store_ID tgt)"
  shows "shouldBalance env p = Returns (tolerance_holds env p (sourceScore p) src tgt)"
  using assms
  by (auto simp: shouldBalance_def tolerance_holds_def abs_influence_def Let_def)

lemma transferPeer_loop_built:
  assumes "transferPeer_loop env p src r ts = Returns (Some op)" and "source p = Some src"
  shows "\<exists>pre tgt post. ts = pre @ tgt # post
      \<and> op_RegionID op = GetID r
      \<and> op_sourceScore op = sourceScore p \<and> op_targetScore op = score p (store_ID tgt)
      \<and> op_SourceStore op = store_ID src \<and> op_TargetStore op = store_ID tgt
      \<and> op_tolerate op = tolerate p
      \<and> (\<forall>c\<in>set pre. score p (store_ID c) \<le> averageScore p
                       \<and> \<not> tolerance_holds env p (sourceScore p) src c)
      \<and> score p (store_ID tgt) \<le> averageScore p
      \<and> tolerance_holds env p (sourceScore p) src tgt"
  using assms
proof (induction ts arbitrary: p)
  case Nil
  then show ?case by simp
next
  case (Cons c ts)
  let ?p1 = "p\<lparr>target := Some c, targetScore := score p (store_ID c)\<rparr>"
  have sb: "shouldBalance env ?p1 = Returns (tolerance_holds env p (sourceScore p) src c)"
    using shouldBalance_iff [of ?p1 src c env] Cons.prems(2)
    by (simp add: score_def tolerance_holds_def abs_influence_def)
  from Cons.prems(1) have le: "score p (store_ID c) \<le> averageScore p"
    by (auto simp: Let_def split: if_splits)
  show ?case
  proof (cases "tolerance_holds env p (sourceScore p) src c")
    case False
    with Cons.prems(1) sb le have "transferPeer_loop env ?p1 src r ts = Returns (Some op)"
      by (simp add: Let_def)
    from Cons.IH [OF this] Cons.prems(2) obtain pre tgt post where
      "ts = pre @ tgt # post" "op_RegionID op = GetID r"
      "op_sourceScore op = sourceScore p" "op_targetScore op = score p (store_ID tgt)"
      "op_SourceStore op = store_ID src" "op_TargetStore op = store_ID tgt"
      "op_tolerate op = tolerate p"
      "\<forall>c\<in>set pre. score p (store_ID c) \<le> averageScore p
                       \<and> \<not> tolerance_holds env p (sourceScore p) src c"
      "score p (store_ID tgt) \<le> averageScore p"
      "tolerance_holds env p (sourceScore p) src tgt"
      by (auto simp: score_def tolerance_holds_def abs_influence_def)
    with False le have "c # ts = (c # pre) @ tgt # post
      \<and> op_RegionID op = GetID r
      \<and> op_sourceScore op = sourceScore p \<and> op_targetScore op = score p (store_ID tgt)
      \<and> op_SourceStore op = store_ID src \<and> op_TargetStore op = store_ID tgt
      \<and> op_tolerate op = tolerate p
      \<and> (\<forall>c\<in>set (c # pre). score p (store_ID c) \<le> averageScore p
                       \<and> \<not> tolerance_holds env p (sourceScore p) src c)
      \<and> score p (store_ID tgt) \<le> averageScore p
      \<and> tolerance_holds env p (sourceScore p) src tgt"
      by simp
    then show ?thesis by blast
  next
    case True
    with Cons.prems(1) sb le have "op_SourceStore op = store_ID src"
      "op_TargetStore op = store_ID c" "op_tolerate op = tolerate p"
      "op_RegionID op = GetID r"
      "op_sourceScore op = sourceScore p" "op_targetScore op = score p (store_ID c)"
      by (auto simp: Let_def split: if_splits option.splits)
    with True le have "c # ts = [] @ c # ts
      \<and> op_RegionID op = GetID r
      \<and> op_sourceScore op = sourceScore p \<and> op_targetScore op = score p (store_ID c)
      \<and> op_SourceStore op = store_ID src \<and> op_TargetStore op = store_ID c
      \<and> op_tolerate op = tolerate p
      \<and> (\<forall>c\<in>set []. score p (store_ID c) \<le> averageScore p
                       \<and> \<not> tolerance_holds env p (sourceScore p) src c)
      \<and> score p (store_ID c) \<le> averageScore p
      \<and> tolerance_holds env p (sourceScore p) src c"
      by simp
    then show ?thesis by blast
  qed
qed

lemma visited_before_has_smaller_key:
  assumes "sorted_wrt (\<lambda>a b. k a \<ge> k b) dst"
    and "rev (filter P dst) = visited @ tgt # rest"
  shows "\<forall>c\<in>set visited. k c \<le> (k tgt :: int)"
proof -
  from assms(1) have "sorted_wrt (\<lambda>a b. k a \<ge> k b) (filter P dst)"
    by (rule sorted_wrt_filter)
  moreover from assms(2) have "filter P dst = rev rest @ tgt # rev visited"
    by (metis rev_append rev.simps(2) rev_rev_ident append_Cons append_Nil append_assoc)
  ultimately have "sorted_wrt (\<lambda>a b. k a \<ge> k b) (rev rest @ tgt # rev visited)" by simp
  then show ?thesis by (auto simp: sorted_wrt_append)
qed

lemma transferPeer_built:
  assumes "transferPeer env p dst = Returns (Some op)"
  shows "\<exists>src r tgt visited rest. source p = Some src \<and> region p = Some r
      \<and> rev (candidates_of env p src r dst) = visited @ tgt # rest
      \<and> tgt \<in> set dst \<and> not_excluded p r tgt
      \<and> op_RegionID op = GetID r
      \<and> op_sourceScore op = sourceScore p \<and> op_targetScore op = score p (store_ID tgt)
      \<and> op_SourceStore op = store_ID src \<and> op_TargetStore op = store_ID tgt
      \<and> op_tolerate op = tolerate p
      \<and> (\<forall>c\<in>set visited. score p (store_ID c) \<le> averageScore p
                       \<and> \<not> tolerance_holds env p (sourceScore p) src c)
      \<and> score p (store_ID tgt) \<le> averageScore p
      \<and> tolerance_holds env p (sourceScore p) src tgt"
proof -
  from assms obtain src r where sr: "source p = Some src" "region p = Some r"
    and l: "transferPeer_loop env p src r (rev (candidates_of env p src r dst)) = Returns (Some op)"
    by (auto simp: transferPeer_def split: option.splits)
  from transferPeer_loop_built [OF l sr(1)] obtain visited tgt rest where
    v: "rev (candidates_of env p src r dst) = visited @ tgt # rest"
    and rest: "op_RegionID op = GetID r"
      "op_sourceScore op = sourceScore p" "op_targetScore op = score p (store_ID tgt)"
      "op_SourceStore op = store_ID src" "op_TargetStore op = store_ID tgt"
      "op_tolerate op = tolerate p"
      "\<forall>c\<in>set visited. score p (store_ID c) \<le> averageScore p
                       \<and> \<not> tolerance_holds env p (sourceScore p) src c"
      "score p (store_ID tgt) \<le> averageScore p"
      "tolerance_holds env p (sourceScore p) src tgt"
    by blast
  from v have "tgt \<in> set (rev (candidates_of env p src r dst))" by simp
  then have "tgt \<in> set dst" and "not_excluded p r tgt"
    by (auto simp: candidates_of_def not_excluded_def excluded_filter_target_def
        excludeTargets_of_def)
  with sr v rest show ?thesis by blast
qed

lemma built_for_cong:
  assumes "scoreMap p' = scoreMap p" "averageScore p' = averageScore p"
    "tolerate p' = tolerate p" "job p' = job p"
    "\<And>x. select_region env p' x = select_region env p x"
  shows "built_for env p' op src post r tgt visited = built_for env p op src post r tgt visited"
  using assms
  by (simp add: built_for_def score_def tolerance_holds_def abs_influence_def not_excluded_def
      candidates_of_def)

lemma Schedule_loop_built:
  assumes "Schedule_loop env p ss = Returns (Some op)"
  shows "\<exists>pre src post r tgt visited. ss = pre @ src # post
      \<and> built_for env p op src post r tgt visited"
  using assms
proof (induction ss arbitrary: p)
  case Nil
  then show ?case by simp
next
  case (Cons s ss)
  let ?p1 = "p\<lparr>source := Some s, sourceScore := score p (store_ID s)\<rparr>"
  let ?p2 = "?p1\<lparr>region := select_region env ?p1 (store_ID s)\<rparr>"
  have sel1: "select_region env ?p1 x = select_region env p x" for x
    by (rule select_region_source)
  have sel: "select_region env ?p2 x = select_region env p x" for x
    using select_region_carried [of env ?p1 "store_ID s" x] by (simp only: sel1)
  have inv: "scoreMap ?p2 = scoreMap p" "averageScore ?p2 = averageScore p"
    "tolerate ?p2 = tolerate p" "job ?p2 = job p" by simp_all
  from Cons.prems have ge: "averageScore p \<le> score p (store_ID s)"
    by (auto simp: Let_def split: if_splits)
  have later: ?case if "Schedule_loop env ?p2 ss = Returns (Some op)"
  proof -
    from Cons.IH [OF that] obtain pre src post r tgt visited where
      "ss = pre @ src # post" "built_for env ?p2 op src post r tgt visited" by blast
    then have "s # ss = (s # pre) @ src # post \<and> built_for env p op src post r tgt visited"
      using built_for_cong [OF inv sel] by simp
    then show ?thesis by blast
  qed
  show ?case
  proof (cases "transferPeer env ?p2 ss = Returns (Some op)")
    case True
    from transferPeer_built [OF True] obtain r tgt visited rest where
      r: "region ?p2 = Some r"
      and v: "rev (candidates_of env ?p2 s r ss) = visited @ tgt # rest"
      and f: "tgt \<in> set ss" "not_excluded ?p2 r tgt"
        "op_RegionID op = GetID r"
        "op_sourceScore op = sourceScore ?p2" "op_targetScore op = score ?p2 (store_ID tgt)"
        "op_SourceStore op = store_ID s" "op_TargetStore op = store_ID tgt"
        "op_tolerate op = tolerate ?p2"
        "\<forall>c\<in>set visited. score ?p2 (store_ID c) \<le> averageScore ?p2
                       \<and> \<not> tolerance_holds env ?p2 (sourceScore ?p2) s c"
        "score ?p2 (store_ID tgt) \<le> averageScore ?p2"
        "tolerance_holds env ?p2 (sourceScore ?p2) s tgt"
      by auto
    have "region ?p2 = select_region env ?p1 (store_ID s)" by simp
    with r have "select_region env ?p1 (store_ID s) = Some r" by (simp only:)
    then have "select_region env p (store_ID s) = Some r" by (simp only: sel1)
    then have sr: "select_region env ?p2 (store_ID s) = Some r" by (simp only: sel)
    have "built_for env ?p2 op s ss r tgt visited"
      unfolding built_for_def using v f ge sr
      by (auto simp: list_all_iff score_def)
    then have "s # ss = [] @ s # ss \<and> built_for env p op s ss r tgt visited"
      using built_for_cong [OF inv sel] by simp
    then show ?thesis by blast
  next
    case False
    with Cons.prems ge have "Schedule_loop env ?p2 ss = Returns (Some op)"
      by (auto simp: Let_def split: if_splits option.splits go.splits)
    then show ?thesis by (rule later)
  qed
qed

lemma prepare_plan:
  assumes "prepare env j = Inr p"
  shows "job p = j
    \<and> stores p = sort_Slice_desc (pdqsort env) (adjusted_score env p)
                   (SelectSourceStores env (Engine j))
    \<and> tolerate p = max 1 (go_div (sum_list (map (store_count env j)
                                       (SelectSourceStores env (Engine j)))
                                   * fst (adjustRatio env)) (snd (adjustRatio env)))
    \<and> averageScore p = go_div (sum_list (map (store_count env j)
                                       (SelectSourceStores env (Engine j))))
                               (int (length (stores p)))"
proof -
  let ?sources = "SelectSourceStores env (Engine j)"
  let ?scores = "foldl (\<lambda>m src. m(store_ID src := store_count env j src)) (\<lambda>_. 0) ?sources"
  let ?total = "sum_list (map (store_count env j) ?sources)"
  let ?sorted = "sort_Slice_desc (pdqsort env)
      (\<lambda>s. ?scores (store_ID s) + GetStoreInfluenceByRole env (store_ID s) (Rule j)) ?sources"
  let ?ratio = "go_div (?total * fst (adjustRatio env)) (snd (adjustRatio env))"
  from assms have e: "\<not> (Engine j \<noteq> ''tikv'' \<and> Engine j \<noteq> ''tiflash'')"
    and l: "\<not> length ?sources \<le> 1"
    by (auto simp: prepare_def Let_def split: if_splits)
  from e l have eq: "prepare env j = Inr \<lparr>stores = ?sorted, scoreMap = ?scores, source = None,
      sourceScore = 0, target = None, targetScore = 0, region = None,
      averageScore = go_div ?total (int (length ?sorted)), job = j,
      tolerate = (if ?ratio < 1 then 1 else ?ratio)\<rparr>"
    unfolding prepare_def Let_def by (simp only: if_False if_True)
  have p: "p = \<lparr>stores = ?sorted, scoreMap = ?scores, source = None,
      sourceScore = 0, target = None, targetScore = 0, region = None,
      averageScore = go_div ?total (int (length ?sorted)), job = j,
      tolerate = (if ?ratio < 1 then 1 else ?ratio)\<rparr>"
    by (rule sum.inject(2) [THEN iffD1, OF trans [OF assms [symmetric] eq]])
  have k: "adjusted_score env p
      = (\<lambda>s. ?scores (store_ID s) + GetStoreInfluenceByRole env (store_ID s) (Rule j))"
    by (simp add: p adjusted_score_def score_def fun_eq_iff)
  have "job p = j" by (simp add: p)
  moreover have "stores p = sort_Slice_desc (pdqsort env) (adjusted_score env p) ?sources"
    by (simp only: k) (simp add: p)
  moreover have "tolerate p = max 1 ?ratio" by (simp add: p max_def)
  moreover have "averageScore p = go_div ?total (int (length (stores p)))"
    by (simp add: p)
  ultimately show ?thesis by blast
qed

text \<open>
  C8 (as amended): when \<^verbatim>\<open>Schedule\<close> returns an operator, it was built for a source store,
  for the region that \<^verbatim>\<open>Schedule\<close> selected on that source, and for a target store among
  the stores after the source in the list sorted by descending score plus operator
  influence. The target is not excluded (it holds no peer of the selected region; in
  LeaderScatter mode it is not the store of the region's leader), its score does not
  exceed the average, and the tolerance condition holds, with the influences taken
  without their sign (hence also with their sign): \<open>sourceScore - sourceInfluence -
  tolerate \<ge> targetScore + targetInfluence + tolerate\<close>, where \<open>tolerate\<close> is the greater of
  1 and \<open>totalScore \<cdot> adjustRatio\<close> truncated to an integer. The candidates are visited in
  ascending order of score plus operator influence: those visited before the target have
  a key not above the target's, a score not above the average, and fail the tolerance
  condition.
\<close>

theorem balance_range_operator_conditions:
  assumes "pdqsort_sorts env" and "Schedule env (Some j) = Returns (Some op)"
  shows "\<exists>p pre src post r tgt visited.
      prepare env j = Inr p
    \<and> tolerate p = max 1 (go_div (sum_list (map (store_count env j)
                                       (SelectSourceStores env (Engine j)))
                                   * fst (adjustRatio env)) (snd (adjustRatio env)))
    \<and> sorted_wrt (\<lambda>a b. adjusted_score env p a \<ge> adjusted_score env p b) (stores p)
    \<and> stores p = pre @ src # post
    \<and> built_for env p op src post r tgt visited
    \<and> score p (store_ID src) - GetStoreInfluenceByRole env (store_ID src) (Rule j) - tolerate p
        \<ge> score p (store_ID tgt) + GetStoreInfluenceByRole env (store_ID tgt) (Rule j)
            + tolerate p
    \<and> list_all (\<lambda>c. adjusted_score env p c \<le> adjusted_score env p tgt) visited"
proof -
  from assms(2) obtain p where pr: "prepare env j = Inr p"
    and lp: "Schedule_loop env p (stores p) = Returns (Some op)"
    by (auto simp: Schedule_def split: sum.splits)
  note pp = prepare_plan [OF pr]
  from pp have srt: "sorted_wrt (\<lambda>a b. adjusted_score env p a \<ge> adjusted_score env p b) (stores p)"
    by (simp add: sorted_sort_Slice_desc [OF assms(1)])
  from Schedule_loop_built [OF lp] obtain pre src post r tgt visited where
    sp: "stores p = pre @ src # post" and bf: "built_for env p op src post r tgt visited"
    by blast
  from srt sp have "sorted_wrt (\<lambda>a b. adjusted_score env p a \<ge> adjusted_score env p b) post"
    by (simp add: sorted_wrt_append)
  moreover from bf obtain rest where
    "rev (candidates_of env p src r post) = visited @ tgt # rest"
    by (auto simp: built_for_def)
  ultimately have "\<forall>c\<in>set visited. adjusted_score env p c \<le> adjusted_score env p tgt"
    unfolding candidates_of_def by (rule visited_before_has_smaller_key)
  then have ord: "list_all (\<lambda>c. adjusted_score env p c \<le> adjusted_score env p tgt) visited"
    by (simp add: list_all_iff)
  from bf pp have raw: "score p (store_ID src) - GetStoreInfluenceByRole env (store_ID src) (Rule j)
        - tolerate p
        \<ge> score p (store_ID tgt) + GetStoreInfluenceByRole env (store_ID tgt) (Rule j)
            + tolerate p"
    by (auto simp: built_for_def tolerance_holds_def abs_influence_def)
  from pr pp srt sp bf raw ord show ?thesis by blast
qed

lemmas sched_eval =
  Schedule_def prepare_def store_count_def sort_Slice_desc_def insertionSort_desc_def
  score_def shouldBalance_def
  transferPeer_def candidates_of_def excluded_filter_target_def excludeTargets_of_def
  select_region_def GetStoreIDs_def GetStorePeer_def GetPeers_def GetLeader_def GetID_def
  GetStoreId_def go_div_def Let_def
  ex_sched_env_def ex_sched_job_def ex_job_def ex_region_def ex_operator_def

lemma ex_schedule:
  "Schedule ex_sched_env (Some ex_sched_job) = Returns (Some ex_operator)"
  by (simp add: sched_eval)

lemma ex_prepare: "prepare ex_sched_env ex_sched_job = Inr ex_plan"
proof -
  have "\<exists>p. prepare ex_sched_env ex_sched_job = Inr p"
    by (simp add: prepare_def Let_def ex_sched_env_def ex_sched_job_def ex_job_def)
  then show ?thesis by (auto simp: ex_plan_def)
qed

lemma ex_pdqsort_sorts: "pdqsort_sorts ex_sched_env"
  by (simp add: pdqsort_sorts_def ex_sched_env_def sorted_insertionSort_desc)

lemma ex_plan_fields:
  "stores ex_plan = [\<lparr>store_ID = 1\<rparr>, \<lparr>store_ID = 2\<rparr>, \<lparr>store_ID = 3\<rparr>]"
  "averageScore ex_plan = 10" "tolerate ex_plan = 1" "job ex_plan = ex_sched_job"
  "scoreMap ex_plan 1 = 20" "scoreMap ex_plan 2 = 3" "scoreMap ex_plan 3 = 9"
  by (simp_all add: ex_plan_def sched_eval)

lemma StoreInfo_by_id: "store_ID s = n \<Longrightarrow> (s :: StoreInfo) = \<lparr>store_ID = n\<rparr>"
  by (cases s) simp

theorem balance_range_operator_conditions_witness:
  "pdqsort_sorts ex_sched_env
   \<and> Schedule ex_sched_env (Some ex_sched_job) = Returns (Some ex_operator)
   \<and> prepare ex_sched_env ex_sched_job = Inr ex_plan
   \<and> select_region ex_sched_env ex_plan 1 = Some ex_region
   \<and> (\<exists>pre post visited.
         stores ex_plan = pre @ \<lparr>store_ID = 1\<rparr> # post
       \<and> built_for ex_sched_env ex_plan ex_operator \<lparr>store_ID = 1\<rparr> post ex_region
             \<lparr>store_ID = 3\<rparr> visited)
   \<and> not_excluded ex_plan ex_region \<lparr>store_ID = 3\<rparr>
   \<and> tolerance_holds ex_sched_env ex_plan (score ex_plan 1) \<lparr>store_ID = 1\<rparr> \<lparr>store_ID = 3\<rparr>"
proof -
  have r: "Schedule ex_sched_env (Some ex_sched_job) = Returns (Some ex_operator)"
    by (rule ex_schedule)
  from balance_range_operator_conditions [OF ex_pdqsort_sorts r]
  obtain p pre src post rg tgt visited where
    pr: "prepare ex_sched_env ex_sched_job = Inr p"
    and sp: "stores p = pre @ src # post"
    and bf: "built_for ex_sched_env p ex_operator src post rg tgt visited"
    by blast
  from pr ex_prepare have p: "p = ex_plan" by simp
  from bf have "store_ID src = 1" "store_ID tgt = 3"
    by (simp_all add: built_for_def ex_operator_def)
  then have src: "src = \<lparr>store_ID = 1\<rparr>" and tgt: "tgt = \<lparr>store_ID = 3\<rparr>"
    by (simp_all add: StoreInfo_by_id)
  have sel: "select_region ex_sched_env ex_plan 1 = Some ex_region"
    by (simp add: select_region_def ex_plan_fields(4)) (simp add: ex_sched_job_def ex_sched_env_def)
  from bf have "select_region ex_sched_env ex_plan (store_ID src) = Some rg"
    by (simp add: built_for_def p)
  with sel have rg: "rg = ex_region" by (simp add: src)
  from bf have bf': "built_for ex_sched_env ex_plan ex_operator \<lparr>store_ID = 1\<rparr> post ex_region
             \<lparr>store_ID = 3\<rparr> visited"
    by (simp only: p src tgt rg)
  from sp have sp': "stores ex_plan = pre @ \<lparr>store_ID = 1\<rparr> # post"
    by (simp only: p src)
  from bf' have ne: "not_excluded ex_plan ex_region \<lparr>store_ID = 3\<rparr>"
    and th: "tolerance_holds ex_sched_env ex_plan (score ex_plan 1) \<lparr>store_ID = 1\<rparr> \<lparr>store_ID = 3\<rparr>"
    by (simp_all add: built_for_def)
  from ex_pdqsort_sorts r ex_prepare sel sp' bf' ne th show ?thesis by blast
qed

text \<open>
  C8 as stated fails in the order of the targets: with scores 20, 3 and 9 and influences
  0, 10 and 3 the stores are sorted as 1, 2, 3, the targets of source 1 are visited from
  the end, and the operator is built for store 3 (score 9), although store 2 has the
  lower score 3, is not excluded, is below the average and satisfies the tolerance
  condition.
\<close>

theorem balance_range_target_order_counterexample:
  "prepare ex_sched_env ex_sched_job = Inr ex_plan
   \<and> stores ex_plan = [\<lparr>store_ID = 1\<rparr>, \<lparr>store_ID = 2\<rparr>, \<lparr>store_ID = 3\<rparr>]
   \<and> Schedule ex_sched_env (Some ex_sched_job) = Returns (Some ex_operator)
   \<and> op_TargetStore ex_operator = 3
   \<and> score ex_plan 2 < score ex_plan 3
   \<and> score ex_plan 2 \<le> averageScore ex_plan
   \<and> not_excluded ex_plan ex_region \<lparr>store_ID = 2\<rparr>
   \<and> other_target_filters ex_sched_env ex_region \<lparr>store_ID = 1\<rparr> \<lparr>store_ID = 2\<rparr>
   \<and> tolerance_holds ex_sched_env ex_plan (score ex_plan 1) \<lparr>store_ID = 1\<rparr> \<lparr>store_ID = 2\<rparr>"
proof -
  note f = ex_plan_fields
  have a: "score ex_plan 2 < score ex_plan 3" "score ex_plan 2 \<le> averageScore ex_plan"
    by (simp_all add: score_def f)
  have b: "not_excluded ex_plan ex_region \<lparr>store_ID = 2\<rparr>"
    by (simp add: not_excluded_def f(4)) (simp add: sched_eval)
  have c: "other_target_filters ex_sched_env ex_region \<lparr>store_ID = 1\<rparr> \<lparr>store_ID = 2\<rparr>"
    by (simp add: ex_sched_env_def)
  have d: "tolerance_holds ex_sched_env ex_plan (score ex_plan 1) \<lparr>store_ID = 1\<rparr> \<lparr>store_ID = 2\<rparr>"
    by (simp add: tolerance_holds_def abs_influence_def score_def f ex_sched_env_def)
  have e: "op_TargetStore ex_operator = 3" by (simp add: ex_operator_def)
  from ex_prepare f(1) ex_schedule e a b c d show ?thesis by blast
qed

end
